theory Spec2Isabelle
  imports Complex_Main "HOL-Library.Log_Nat"
begin

section \<open>JavaScript values and built-ins used by the timeline editor\<close>

text \<open>
  A JavaScript number is an IEEE 754 double. It is modelled by the rational (\<open>rat\<close>)
  that it denotes; NaN, the infinities and the sign of zero are not represented. Scene
  ids and array positions are integers (\<open>int\<close>). Strings are \<open>string\<close>, the UTF-8
  bytes of the text.
\<close>

type_synonym number = rat

text \<open>
  \<open>round_double x\<close> is the double nearest to \<open>x\<close>, ties to the even significand, for
  \<open>x\<close> in the range of the normal doubles (overflow and subnormal numbers are not
  modelled): \<open>binade x\<close> is the exponent \<open>e\<close> with \<open>2^e \<le> x < 2^(e+1)\<close>, and the
  significand has 53 bits.
\<close>

definition pow2 :: "int \<Rightarrow> rat" where
  "pow2 k = (if 0 \<le> k then 2 ^ nat k else 1 / 2 ^ nat (- k))"

definition binade :: "rat \<Rightarrow> int" where
  "binade x =
     (let (p, q) = quotient_of x;
          e = bitlen p - bitlen q
      in if x < pow2 e then e - 1 else e)"

definition round_half_even :: "rat \<Rightarrow> int" where
  "round_half_even m =
     (let f = \<lfloor>m\<rfloor>;
          r = m - of_int f
      in if r < 1/2 then f else if 1/2 < r then f + 1 else if even f then f else f + 1)"

definition round_double :: "rat \<Rightarrow> rat" where
  "round_double x =
     (if x = 0 then 0
      else
        (let a = \<bar>x\<bar>;
             ulp = pow2 (binade a - 52);
             y = of_int (round_half_even (a / ulp)) * ulp
         in if x < 0 then - y else y))"

text \<open>
  The operators \<open>+\<close>, \<open>-\<close> and \<open>/\<close> on numbers: the exact result, rounded to a double.
  The comparisons, \<open>Math.floor\<close>, \<open>Math.max\<close>, \<open>Math.min\<close>, \<open>Math.abs\<close> and \<open>%\<close> on
  integers are exact. A rational is (the value of) a double when rounding leaves it as
  it is; a decimal literal of the source, such as \<open>0.1\<close>, denotes the double nearest to
  it, \<open>round_double 0.1\<close>.
\<close>

definition fadd :: "number \<Rightarrow> number \<Rightarrow> number" where
  "fadd a b = round_double (a + b)"

definition fsub :: "number \<Rightarrow> number \<Rightarrow> number" where
  "fsub a b = round_double (a - b)"

definition fdiv :: "number \<Rightarrow> number \<Rightarrow> number" where
  "fdiv a b = round_double (a / b)"

definition is_double :: "number \<Rightarrow> bool" where
  "is_double x = (round_double x = x)"

text \<open>Decimal digits of a natural number and of an integer, as \<open>String\<close> and
  \<open>Number.prototype.toString\<close> print a whole number below \<open>2^53\<close> in magnitude (scene
  ids, minutes and seconds).\<close>

definition digit_char :: "nat \<Rightarrow> char" where
  "digit_char d = ''0123456789'' ! d"

fun nat_str :: "nat \<Rightarrow> string" where
  "nat_str n = (if n < 10 then [digit_char n] else nat_str (n div 10) @ [digit_char (n mod 10)])"

declare nat_str.simps [simp del]

definition int_str :: "int \<Rightarrow> string" where
  "int_str i = (if i < 0 then ''-'' @ nat_str (nat (- i)) else nat_str (nat i))"

text \<open>
  \<open>String(x)\<close> for a number, as a template literal \<open>`${x}`\<close> applies it
  (\<open>Number::toString\<close> of ECMAScript, radix 10). The digits are the shortest decimal
  digits \<open>s\<close>, with an exponent \<open>n\<close>, such that \<open>0.s * 10^n\<close> reads back as the same
  double; among several of the same length, the nearest to the number. \<open>decade x\<close> is
  the \<open>n\<close> with \<open>10^(n-1) \<le> x < 10^n\<close>; \<open>digits_candidate x k\<close> looks for \<open>k\<close> digits
  among the two multiples of \<open>10^(n-k)\<close> around \<open>x\<close>; 17 digits identify every double.
  The digits are then laid out as ECMAScript does: as an integer with zeros appended,
  with a decimal point, with zeros after \<open>0.\<close>, or in exponent notation when \<open>n\<close> is
  above 21 or below \<open>-5\<close>.
\<close>

function digits :: "int \<Rightarrow> string" where
  "digits n =
     (if n < 10 then [digit_char (nat n)]
      else digits (n div 10) @ [digit_char (nat (n mod 10))])"
  by pat_completeness auto

termination
  by (relation "measure nat") auto

declare digits.simps [simp del]

definition pow10 :: "int \<Rightarrow> rat" where
  "pow10 k = (if 0 \<le> k then 10 ^ nat k else 1 / 10 ^ nat (- k))"

definition decade :: "rat \<Rightarrow> int" where
  "decade x =
     (if 1 \<le> x then int (length (digits \<lfloor>x\<rfloor>))
      else
        (let j = int (length (digits \<lfloor>1 / x\<rfloor>))
         in if x = pow10 (1 - j) then 2 - j else 1 - j))"

definition digits_candidate :: "rat \<Rightarrow> nat \<Rightarrow> (int \<times> int) option" where
  "digits_candidate x k =
     (let n = decade x;
          g = pow10 (n - int k);
          f = \<lfloor>x / g\<rfloor>;
          lower = of_int f * g;
          upper = of_int (f + 1) * g;
          lower_ok = (round_double lower = x);
          upper_ok = (round_double upper = x);
          s = (if lower_ok \<and> upper_ok
               then (if x - lower < upper - x \<or> (x - lower = upper - x \<and> even f)
                     then Some f else Some (f + 1))
               else if lower_ok then Some f
               else if upper_ok then Some (f + 1)
               else None)
      in case s of
           None \<Rightarrow> None
         | Some d \<Rightarrow> if d = 10 ^ k then Some (1, n + 1) else Some (d, n))"

fun shortest_digits :: "rat \<Rightarrow> nat list \<Rightarrow> (int \<times> int) option" where
  "shortest_digits x [] = None"
| "shortest_digits x (k # ks) =
     (case digits_candidate x k of
        Some c \<Rightarrow> Some c
      | None \<Rightarrow> shortest_digits x ks)"

definition positive_toString :: "rat \<Rightarrow> string" where
  "positive_toString x =
     (case shortest_digits x [1 ..< 18] of
        None \<Rightarrow> []
      | Some (s, n) \<Rightarrow>
          (let ds = digits s;
               k = int (length ds)
           in if k \<le> n \<and> n \<le> 21 then ds @ replicate (nat (n - k)) (CHR ''0'')
              else if 0 < n \<and> n \<le> 21 then take (nat n) ds @ ''.'' @ drop (nat n) ds
              else if - 6 < n \<and> n \<le> 0 then ''0.'' @ replicate (nat (- n)) (CHR ''0'') @ ds
              else
                (let e = n - 1;
                     es = (if e < 0 then ''-'' else ''+'') @ digits \<bar>e\<bar>
                 in if k = 1 then ds @ ''e'' @ es
                    else take 1 ds @ ''.'' @ drop 1 ds @ ''e'' @ es)))"

text \<open>The number printed is a double: a rational that is not one stands for the double
  nearest to it.\<close>

definition Number_toString :: "number \<Rightarrow> string" where
  "Number_toString x =
     (let d = round_double x
      in if d = 0 then ''0''
         else if d < 0 then ''-'' @ positive_toString (- d)
         else positive_toString d)"

text \<open>\<open>s.padStart(n, c)\<close> for a one-character filler.\<close>

definition padStart :: "nat \<Rightarrow> char \<Rightarrow> string \<Rightarrow> string" where
  "padStart n c s = replicate (n - length s) c @ s"

text \<open>The remainder operator \<open>a % b\<close> on integers (\<open>b \<noteq> 0\<close>): the result has the sign
  of the dividend.\<close>

definition js_rem :: "int \<Rightarrow> int \<Rightarrow> int" where
  "js_rem a b = sgn a * (\<bar>a\<bar> mod \<bar>b\<bar>)"

text \<open>\<open>xs.join(sep)\<close>.\<close>

fun join :: "string \<Rightarrow> string list \<Rightarrow> string" where
  "join sep [] = []"
| "join sep [x] = x"
| "join sep (x # y # ys) = x @ sep @ join sep (y # ys)"

text \<open>
  \<open>s.trim()\<close> removes the white space and line terminator characters of ECMAScript at
  both ends. \<open>WhiteSpace\<close> lists their UTF-8 encodings: U+0009 to U+000D, U+0020,
  U+00A0, U+1680, U+2000 to U+200A, U+2028, U+2029, U+202F, U+205F, U+3000 and U+FEFF.
  \<open>strip_leading ws s\<close> removes from the start of \<open>s\<close> the sequences listed in \<open>ws\<close>,
  as long as there is one.
\<close>

definition WhiteSpace :: "string list" where
  "WhiteSpace =
     map (\<lambda>b. [b]) [CHR 0x09, CHR 0x0A, CHR 0x0B, CHR 0x0C, CHR 0x0D, CHR 0x20]
     @ map (\<lambda>b. [CHR 0xC2, b]) [CHR 0xA0]
     @ map (\<lambda>b. [CHR 0xE1, CHR 0x9A, b]) [CHR 0x80]
     @ map (\<lambda>b. [CHR 0xE2, CHR 0x80, b])
         [CHR 0x80, CHR 0x81, CHR 0x82, CHR 0x83, CHR 0x84, CHR 0x85, CHR 0x86, CHR 0x87,
          CHR 0x88, CHR 0x89, CHR 0x8A, CHR 0xA8, CHR 0xA9, CHR 0xAF]
     @ map (\<lambda>b. [CHR 0xE2, CHR 0x81, b]) [CHR 0x9F]
     @ map (\<lambda>b. [CHR 0xE3, CHR 0x80, b]) [CHR 0x80]
     @ map (\<lambda>b. [CHR 0xEF, CHR 0xBB, b]) [CHR 0xBF]"

function strip_leading :: "string list \<Rightarrow> string \<Rightarrow> string" where
  "strip_leading ws s =
     (case find (\<lambda>w. w \<noteq> [] \<and> take (length w) s = w) ws of
        None \<Rightarrow> s
      | Some w \<Rightarrow> strip_leading ws (drop (length w) s))"
  by pat_completeness auto

termination
proof (relation "measure (\<lambda>(ws, s). length s)")
  show "wf (measure (\<lambda>(ws, s). length s))" by simp
next
  fix ws :: "string list" and s w :: string
  assume "find (\<lambda>w. w \<noteq> [] \<and> take (length w) s = w) ws = Some w"
  then have w: "w \<noteq> []" and t: "take (length w) s = w" by (auto simp: find_Some_iff)
  from t have "length w = min (length w) (length s)" by (metis length_take min.commute)
  then have "length w \<le> length s" by simp
  moreover from w have "0 < length w" by simp
  ultimately have "length s - length w < length s" by linarith
  then show "((ws, drop (length w) s), (ws, s)) \<in> measure (\<lambda>(ws, s). length s)" by simp
qed

declare strip_leading.simps [simp del]

definition trim :: "string \<Rightarrow> string" where
  "trim s = rev (strip_leading (map rev WhiteSpace) (rev (strip_leading WhiteSpace s)))"

text \<open>\<open>!x?.trim()\<close> for an optional string: true when the string is missing (undefined
  or null) or only white space.\<close>

definition blank :: "string option \<Rightarrow> bool" where
  "blank x = (case x of None \<Rightarrow> True | Some s \<Rightarrow> trim s = [])"

text \<open>\<open>xs.slice(0, e)\<close>: a negative end counts from the end of the array.\<close>

definition slice0 :: "'a list \<Rightarrow> int \<Rightarrow> 'a list" where
  "slice0 xs e =
     (let n = int (length xs);
          k = (if e < 0 then max (n + e) 0 else min e n)
      in take (nat k) xs)"

section \<open>Scenes and shared utilities (utils.js)\<close>

text \<open>
  A scene of the timeline editor. The fields are those the functions below read or
  write; \<open>prompt\<close>, \<open>text_content\<close> and \<open>visual_fx\<close> may be missing. The other fields
  of a scene object (description, style, status, image_url, project_id) are copied
  along unchanged by every function modelled here and are left out.
\<close>

record scene =
  scene_id :: int
  scene_type :: string
  duration :: number
  timestamp :: string
  prompt :: "string option"
  text_content :: "string option"
  visual_fx :: "string option"

text \<open>\<open>ALLOWED_VFX = Object.keys(VFX_ICONS)\<close>: the keys of the icon table, in order.\<close>

definition VFX_ICONS_keys :: "string list" where
  "VFX_ICONS_keys =
     [''zoom_in'', ''zoom_out'', ''pan_left'', ''pan_right'', ''fade'', ''static'',
      ''shake'', ''slow_motion'']"

definition ALLOWED_VFX :: "string list" where
  "ALLOWED_VFX = VFX_ICONS_keys"

text \<open>\<open>formatTimestamp(seconds)\<close>: \<open>Math.floor\<close> of the time, the minutes by
  \<open>Math.floor\<close> of the quotient by 60, the seconds by \<open>%\<close>, padded to two characters
  with zeros.\<close>

definition formatTimestamp :: "number \<Rightarrow> string" where
  "formatTimestamp seconds =
     (let totalSeconds = \<lfloor>seconds\<rfloor>;
          m = \<lfloor>fdiv (of_int totalSeconds) 60\<rfloor>;
          s = js_rem totalSeconds 60
      in int_str m @ '':'' @ padStart 2 (CHR ''0'') (int_str s))"

text \<open>\<open>calculateTimestamps(scenes)\<close>: the \<open>map\<close> callback reads and advances the running
  total \<open>cumulative\<close>, which starts at 0; \<open>cumulative += scene.duration\<close> is an
  addition of doubles.\<close>

fun calculateTimestamps_from :: "number \<Rightarrow> scene list \<Rightarrow> scene list" where
  "calculateTimestamps_from cumulative [] = []"
| "calculateTimestamps_from cumulative (s # ss) =
     s\<lparr>timestamp := formatTimestamp cumulative\<rparr>
       # calculateTimestamps_from (fadd cumulative (duration s)) ss"

definition calculateTimestamps :: "scene list \<Rightarrow> scene list" where
  "calculateTimestamps scenes = calculateTimestamps_from 0 scenes"

text \<open>\<open>getTotalDuration(scenes)\<close>: \<open>reduce\<close> from 0; \<open>scene.duration || 0\<close> is the
  duration itself for a number.\<close>

definition getTotalDuration :: "scene list \<Rightarrow> number" where
  "getTotalDuration scenes = foldl (\<lambda>sum s. fadd sum (duration s)) 0 scenes"

text \<open>\<open>deepClone(obj) = JSON.parse(JSON.stringify(obj))\<close>: on scenes, which hold only
  numbers and strings, the copy equals the original.\<close>

definition deepClone :: "'a \<Rightarrow> 'a" where
  "deepClone obj = obj"

section \<open>Validator\<close>

datatype ErrorType = ERROR | WARNING

text \<open>A diagnostic object. \<open>sceneId\<close> is \<open>None\<close> for \<open>null\<close> (a project-level
  diagnostic); \<open>fixable\<close> is \<open>False\<close> where the object has no such property.\<close>

record diagnostic =
  type :: ErrorType
  sceneId :: "int option"
  field :: string
  message :: string
  suggestion :: string
  fixable :: bool

text \<open>Truthiness of an optional string: missing and the empty string are falsy.\<close>

definition truthy :: "string option \<Rightarrow> bool" where
  "truthy x = (case x of None \<Rightarrow> False | Some s \<Rightarrow> s \<noteq> [])"

text \<open>An optional string inside a template literal.\<close>

definition String_of :: "string option \<Rightarrow> string" where
  "String_of x = (case x of None \<Rightarrow> ''undefined'' | Some s \<Rightarrow> s)"

definition noPromptNeeded :: "string list" where
  "noPromptNeeded = [''text'', ''cta'', ''transition'']"

text \<open>\<open>validateScene(scene)\<close>: the four rules push their diagnostics in this order.
  \<open>!scene.duration\<close> holds for the number 0.\<close>

definition validateScene :: "scene \<Rightarrow> diagnostic list" where
  "validateScene scene =
     (if duration scene = 0 \<or> duration scene \<le> 0 then
        [\<lparr>type = ERROR, sceneId = Some (scene_id scene), field = ''duration'',
          message = ''Scene '' @ int_str (scene_id scene)
                    @ '': Duration must be a positive number'',
          suggestion = ''Set a duration value greater than 0 seconds'',
          fixable = False\<rparr>]
      else [])
     @ (if (scene_type scene = ''text'' \<or> scene_type scene = ''cta'')
           \<and> blank (text_content scene) then
        [\<lparr>type = ERROR, sceneId = Some (scene_id scene), field = ''text_content'',
          message = ''Scene '' @ int_str (scene_id scene)
                    @ '': Text/CTA scenes require text content'',
          suggestion = ''Add text in the '' @ [CHR 0x22] @ ''Text Content'' @ [CHR 0x22]
                    @ '' field or change scene type'',
          fixable = False\<rparr>]
      else [])
     @ (if scene_type scene \<notin> set noPromptNeeded \<and> blank (prompt scene) then
        [\<lparr>type = WARNING, sceneId = Some (scene_id scene), field = ''prompt'',
          message = ''Scene '' @ int_str (scene_id scene)
                    @ '': Missing prompt for visual scene'',
          suggestion = ''Add an image generation prompt describing the visual'',
          fixable = False\<rparr>]
      else [])
     @ (if truthy (visual_fx scene)
           \<and> String_of (visual_fx scene) \<notin> set ALLOWED_VFX then
        [\<lparr>type = ERROR, sceneId = Some (scene_id scene), field = ''visual_fx'',
          message = ''Scene '' @ int_str (scene_id scene) @ '': Invalid visual effect ''
                    @ [CHR 0x22] @ String_of (visual_fx scene) @ [CHR 0x22],
          suggestion = ''Use one of: '' @ join '', '' ALLOWED_VFX,
          fixable = True\<rparr>]
      else [])"

text \<open>Rule 4 of \<open>validateProject\<close>: the \<open>forEach\<close> over the scenes with the running
  total \<open>cumulative\<close>.\<close>

fun timestampWarnings :: "number \<Rightarrow> scene list \<Rightarrow> diagnostic list" where
  "timestampWarnings cumulative [] = []"
| "timestampWarnings cumulative (scene # rest) =
     (let expectedTimestamp = formatTimestamp cumulative in
        (if timestamp scene \<noteq> expectedTimestamp then
           [\<lparr>type = WARNING, sceneId = Some (scene_id scene), field = ''timestamp'',
             message = ''Scene '' @ int_str (scene_id scene)
                       @ '': Timestamp mismatch (expected '' @ expectedTimestamp
                       @ '', got '' @ timestamp scene @ '')'',
             suggestion = ''Timestamps auto-recalculate on save'',
             fixable = False\<rparr>]
         else [])
        @ timestampWarnings (fadd cumulative (duration scene)) rest)"

text \<open>\<open>validateProject(scenes, projectDuration = null)\<close>. The ids are compared, sorted,
  with \<open>1, 2, ..., N\<close>; \<open>JSON.stringify\<close> of two integer arrays is equal exactly when
  the arrays are.\<close>

definition validateProject :: "scene list \<Rightarrow> number option \<Rightarrow> diagnostic list" where
  "validateProject scenes projectDuration =
     (if scenes = [] then []
      else
        let sceneIds = map scene_id scenes;
            expectedIds = map (\<lambda>i. int i + 1) [0 ..< length scenes];
            hasDuplicates = (length sceneIds \<noteq> card (set sceneIds));
            isSequential = (sort sceneIds = expectedIds)
        in concat (map validateScene scenes)
           @ (if hasDuplicates then
                [\<lparr>type = ERROR, sceneId = None, field = ''scene_id'',
                  message = ''Duplicate scene IDs detected'',
                  suggestion = ''Delete duplicate scenes or renumber them manually'',
                  fixable = False\<rparr>]
              else [])
           @ (if \<not> isSequential then
                [\<lparr>type = ERROR, sceneId = None, field = ''scene_id'',
                  message = ''Scene IDs are not sequential (expected 1, 2, 3...)'',
                  suggestion = ''Reorder or renumber scenes to be sequential starting from 1'',
                  fixable = False\<rparr>]
              else [])
           @ timestampWarnings 0 scenes
           @ (case projectDuration of
                None \<Rightarrow> []
              | Some pd \<Rightarrow>
                  if pd > 0 then
                    (let totalDuration = getTotalDuration scenes in
                       if totalDuration \<noteq> pd then
                         (let diff = fsub pd totalDuration;
                              action = (if diff > 0 then ''add '' @ Number_toString diff @ ''s''
                                        else ''remove '' @ Number_toString \<bar>diff\<bar> @ ''s'')
                          in [\<lparr>type = WARNING, sceneId = None, field = ''duration'',
                                message = ''Total duration ('' @ Number_toString totalDuration
                                          @ ''s) doesn't match project duration (''
                                          @ Number_toString pd @ ''s)'',
                                suggestion = ''Adjust scene durations to '' @ action @ '' total'',
                                fixable = True\<rparr>])
                       else [])
                  else []))"

section \<open>State store (state.js)\<close>

definition MAX_HISTORY :: nat where
  "MAX_HISTORY = 20"

record project =
  project_id :: string
  project_duration :: number

text \<open>
  The store object. \<open>skipTimestampCalc\<close> is the property \<open>_skipTimestampCalc\<close> that
  \<open>Object.assign\<close> copies from an update into the store. The effects of the store are
  part of the state: \<open>localStorage\<close> holds the scene lists saved under the keys
  \<open>timeline_scenes_...\<close>, \<open>lastProject\<close> what is saved under the key
  \<open>timeline_last_project\<close>, and
  \<open>notified\<close> is the log of the \<open>_notify\<close> calls (the keys passed to each), oldest
  first. The listeners themselves are callbacks of the user interface; they do not
  write scenes or history, and are not modelled. The properties \<open>projects\<close>,
  \<open>syncStatus\<close>, \<open>lastSyncedAt\<close> and \<open>validationErrors\<close> are not read or written
  by the operations below and are left out.
\<close>

record store =
  currentProject :: "project option"
  scenes :: "scene list"
  selectedScene :: "scene option"
  history :: "scene list list"
  historyIndex :: int
  skipTimestampCalc :: "bool option"
  localStorage :: "(string \<times> scene list) list"
  lastProject :: "string option"
  notified :: "string list list"

text \<open>The store of the constructor.\<close>

definition constructor :: store where
  "constructor =
     \<lparr>currentProject = None, scenes = [], selectedScene = None, history = [],
      historyIndex = - 1, skipTimestampCalc = None, localStorage = [], lastProject = None,
      notified = []\<rparr>"

text \<open>How a call completes: with \<open>undefined\<close> (no \<open>return\<close> statement), with a
  boolean, or by throwing.\<close>

datatype error = SyntaxError

datatype completion = Undefined | Boolean bool | Throws error

text \<open>The object passed to \<open>set\<close>: each property is present (\<open>Some\<close>) or not.\<close>

record updates =
  u_currentProject :: "project option option"
  u_scenes :: "scene list option"
  u_selectedScene :: "scene option option"
  u_history :: "scene list list option"
  u_historyIndex :: "int option"
  u_skipTimestampCalc :: "bool option"

definition no_updates :: updates where
  "no_updates =
     \<lparr>u_currentProject = None, u_scenes = None, u_selectedScene = None, u_history = None,
      u_historyIndex = None, u_skipTimestampCalc = None\<rparr>"

text \<open>\<open>Object.keys(updates)\<close>.\<close>

definition keys :: "updates \<Rightarrow> string list" where
  "keys u =
     (if u_currentProject u \<noteq> None then [''currentProject''] else [])
     @ (if u_scenes u \<noteq> None then [''scenes''] else [])
     @ (if u_selectedScene u \<noteq> None then [''selectedScene''] else [])
     @ (if u_history u \<noteq> None then [''history''] else [])
     @ (if u_historyIndex u \<noteq> None then [''historyIndex''] else [])
     @ (if u_skipTimestampCalc u \<noteq> None then [''_skipTimestampCalc''] else [])"

text \<open>\<open>Object.assign(this.store, updates)\<close>.\<close>

definition assign :: "store \<Rightarrow> updates \<Rightarrow> store" where
  "assign st u =
     st\<lparr>currentProject := (case u_currentProject u of Some v \<Rightarrow> v | None \<Rightarrow> currentProject st),
        scenes := (case u_scenes u of Some v \<Rightarrow> v | None \<Rightarrow> scenes st),
        selectedScene := (case u_selectedScene u of Some v \<Rightarrow> v | None \<Rightarrow> selectedScene st),
        history := (case u_history u of Some v \<Rightarrow> v | None \<Rightarrow> history st),
        historyIndex := (case u_historyIndex u of Some v \<Rightarrow> v | None \<Rightarrow> historyIndex st),
        skipTimestampCalc :=
          (case u_skipTimestampCalc u of Some v \<Rightarrow> Some v | None \<Rightarrow> skipTimestampCalc st)\<rparr>"

text \<open>\<open>_notify(changedKeys)\<close>.\<close>

definition notify :: "string list \<Rightarrow> store \<Rightarrow> store" where
  "notify changedKeys st = st\<lparr>notified := notified st @ [changedKeys]\<rparr>"

text \<open>\<open>Storage.save(key, data)\<close> and \<open>_autoSave()\<close>: the scenes are saved when a
  project with a non-empty id is open and there is at least one scene.\<close>

definition Storage_save :: "string \<Rightarrow> scene list \<Rightarrow> store \<Rightarrow> store" where
  "Storage_save key data st =
     st\<lparr>localStorage := (key, data) # filter (\<lambda>e. fst e \<noteq> key) (localStorage st)\<rparr>"

definition autoSave :: "store \<Rightarrow> store" where
  "autoSave st =
     (case currentProject st of
        None \<Rightarrow> st
      | Some p \<Rightarrow>
          if project_id p \<noteq> [] \<and> scenes st \<noteq> []
          then Storage_save (''timeline_scenes_'' @ project_id p) (scenes st) st
          else st)"

text \<open>\<open>_pushHistory(scenes)\<close>.\<close>

definition pushHistory :: "scene list \<Rightarrow> store \<Rightarrow> store" where
  "pushHistory snapshot st =
     (let st1 = (if historyIndex st < int (length (history st)) - 1
                 then st\<lparr>history := slice0 (history st) (historyIndex st + 1)\<rparr>
                 else st);
          st2 = st1\<lparr>history := history st1 @ [deepClone snapshot]\<rparr>;
          st3 = (if length (history st2) > MAX_HISTORY
                 then st2\<lparr>history := tl (history st2)\<rparr>
                 else st2\<lparr>historyIndex := historyIndex st2 + 1\<rparr>)
      in notify [''history'', ''historyIndex''] st3)"

text \<open>\<open>set(updates, skipHistory = false)\<close>. An array is truthy, so \<open>updates.scenes\<close>
  holds exactly when the property is present.\<close>

definition set_store :: "updates \<Rightarrow> bool \<Rightarrow> store \<Rightarrow> store" where
  "set_store u skipHistory st =
     (let prevState = deepClone st;
          st1 = assign st u;
          st2 = (if u_scenes u \<noteq> None \<and> u_skipTimestampCalc u \<noteq> Some True
                 then st1\<lparr>scenes := calculateTimestamps (scenes st1)\<rparr>
                 else st1);
          st3 = (if \<not> skipHistory \<and> u_scenes u \<noteq> None
                 then pushHistory (scenes prevState) st2
                 else st2);
          st4 = (if u_scenes u \<noteq> None then autoSave st3 else st3)
      in notify (keys u) st4)"

text \<open>\<open>this.store.history[i]\<close>: \<open>None\<close> is \<open>undefined\<close>, the value of a position
  outside the array. \<open>deepClone(undefined)\<close> throws a \<open>SyntaxError\<close>
  (\<open>JSON.parse\<close> of \<open>undefined\<close>).\<close>

definition element_at :: "'a list \<Rightarrow> int \<Rightarrow> 'a option" where
  "element_at xs i = (if 0 \<le> i \<and> i < int (length xs) then Some (xs ! nat i) else None)"

definition load_snapshot :: "string list \<Rightarrow> store \<Rightarrow> completion \<times> store" where
  "load_snapshot changedKeys st =
     (case element_at (history st) (historyIndex st) of
        None \<Rightarrow> (Throws SyntaxError, st)
      | Some snapshot \<Rightarrow>
          (let st1 = set_store (no_updates\<lparr>u_scenes := Some (deepClone snapshot),
                                           u_skipTimestampCalc := Some False\<rparr>) True st
           in (Boolean True, notify changedKeys st1)))"

definition undo :: "store \<Rightarrow> completion \<times> store" where
  "undo st =
     (if historyIndex st > 0
      then load_snapshot [''historyIndex''] (st\<lparr>historyIndex := historyIndex st - 1\<rparr>)
      else (Boolean False, st))"

definition redo :: "store \<Rightarrow> completion \<times> store" where
  "redo st =
     (if historyIndex st < int (length (history st)) - 1
      then load_snapshot [''historyIndex''] (st\<lparr>historyIndex := historyIndex st + 1\<rparr>)
      else (Boolean False, st))"

text \<open>\<open>jumpToHistory(index)\<close>, \<open>deleteHistoryAt(index)\<close> (\<open>splice(index, 1)\<close> removes
  the entry at \<open>index\<close>), \<open>clearHistory()\<close> and \<open>selectProject(project)\<close>.\<close>

definition jumpToHistory :: "int \<Rightarrow> store \<Rightarrow> completion \<times> store" where
  "jumpToHistory index st =
     (if index \<ge> 0 \<and> index < int (length (history st))
      then load_snapshot [''historyIndex''] (st\<lparr>historyIndex := index\<rparr>)
      else (Boolean False, st))"

definition deleteHistoryAt :: "int \<Rightarrow> store \<Rightarrow> completion \<times> store" where
  "deleteHistoryAt index st =
     (if index \<le> 0 \<or> index \<ge> int (length (history st)) then (Boolean False, st)
      else
        (let st1 = st\<lparr>history := take (nat index) (history st)
                                     @ drop (nat index + 1) (history st)\<rparr>;
             st2 = (if historyIndex st1 \<ge> index
                    then st1\<lparr>historyIndex := max 0 (historyIndex st1 - 1)\<rparr>
                    else st1)
         in load_snapshot [''history'', ''historyIndex''] st2))"

definition clearHistory :: "store \<Rightarrow> completion \<times> store" where
  "clearHistory st =
     (let currentScenes = deepClone (scenes st);
          st1 = st\<lparr>history := [currentScenes], historyIndex := 0\<rparr>
      in (Undefined, notify [''history'', ''historyIndex''] st1))"

definition selectProject :: "project option \<Rightarrow> store \<Rightarrow> completion \<times> store" where
  "selectProject p st =
     (let st1 = set_store (no_updates\<lparr>u_currentProject := Some p, u_scenes := Some [],
                                         u_selectedScene := Some None, u_history := Some [],
                                         u_historyIndex := Some (- 1)\<rparr>) True st
      in (Undefined,
          case p of
            None \<Rightarrow> st1
          | Some pr \<Rightarrow> st1\<lparr>lastProject := Some (project_id pr)\<rparr>))"

text \<open>\<open>setScenes(scenes, skipLocalStorage = false)\<close>.\<close>

definition Storage_load :: "string \<Rightarrow> store \<Rightarrow> scene list option" where
  "Storage_load key st = map_of (localStorage st) key"

definition setScenes :: "scene list \<Rightarrow> bool \<Rightarrow> store \<Rightarrow> completion \<times> store" where
  "setScenes new_scenes skipLocalStorage st =
     (let scenesToUse =
            (case currentProject st of
               None \<Rightarrow> new_scenes
             | Some p \<Rightarrow>
                 if \<not> skipLocalStorage \<and> project_id p \<noteq> [] then
                   (case Storage_load (''timeline_scenes_'' @ project_id p) st of
                      None \<Rightarrow> new_scenes
                    | Some savedScenes \<Rightarrow> if savedScenes \<noteq> [] then savedScenes else new_scenes)
                 else new_scenes);
          calculated = calculateTimestamps scenesToUse;
          st1 = st\<lparr>history := [deepClone calculated], historyIndex := 0\<rparr>
      in (Undefined,
          set_store (no_updates\<lparr>u_scenes := Some calculated,
                                u_skipTimestampCalc := Some True\<rparr>) True st1))"

text \<open>An object literal passed as \<open>updates\<close> to \<open>updateScene\<close>: the properties it
  sets, in order. \<open>{ ...s, ...updates }\<close> copies the scene and then assigns them.\<close>

datatype property =
    Set_scene_id int
  | Set_scene_type string
  | Set_duration number
  | Set_timestamp string
  | Set_prompt "string option"
  | Set_text_content "string option"
  | Set_visual_fx "string option"

fun assign_property :: "scene \<Rightarrow> property \<Rightarrow> scene" where
  "assign_property s (Set_scene_id v) = s\<lparr>scene_id := v\<rparr>"
| "assign_property s (Set_scene_type v) = s\<lparr>scene_type := v\<rparr>"
| "assign_property s (Set_duration v) = s\<lparr>duration := v\<rparr>"
| "assign_property s (Set_timestamp v) = s\<lparr>timestamp := v\<rparr>"
| "assign_property s (Set_prompt v) = s\<lparr>prompt := v\<rparr>"
| "assign_property s (Set_text_content v) = s\<lparr>text_content := v\<rparr>"
| "assign_property s (Set_visual_fx v) = s\<lparr>visual_fx := v\<rparr>"

definition spread :: "scene \<Rightarrow> property list \<Rightarrow> scene" where
  "spread s patch = foldl assign_property s patch"

definition updateScene :: "int \<Rightarrow> property list \<Rightarrow> store \<Rightarrow> completion \<times> store" where
  "updateScene sid patch st =
     (let new_scenes = map (\<lambda>s. if scene_id s = sid then spread s patch else s) (scenes st)
      in (Undefined, set_store (no_updates\<lparr>u_scenes := Some new_scenes\<rparr>) False st))"

definition addScene :: "scene \<Rightarrow> store \<Rightarrow> completion \<times> store" where
  "addScene new_scene st =
     (let new_scenes = scenes st @ [new_scene]
      in (Undefined, set_store (no_updates\<lparr>u_scenes := Some new_scenes\<rparr>) False st))"

text \<open>\<open>.map((s, i) => ({ ...s, scene_id: i + 1 }))\<close>.\<close>

definition resequence :: "scene list \<Rightarrow> scene list" where
  "resequence ss = map (\<lambda>(i, s). s\<lparr>scene_id := int i + 1\<rparr>) (enumerate 0 ss)"

definition removeScene :: "int \<Rightarrow> store \<Rightarrow> completion \<times> store" where
  "removeScene sid st =
     (let new_scenes = resequence (filter (\<lambda>s. scene_id s \<noteq> sid) (scenes st));
          st1 = set_store (no_updates\<lparr>u_scenes := Some new_scenes\<rparr>) False st;
          st2 = (case selectedScene st1 of
                   None \<Rightarrow> st1
                 | Some sel \<Rightarrow>
                     if scene_id sel = sid
                     then set_store (no_updates\<lparr>u_selectedScene := Some None\<rparr>) True st1
                     else st1)
      in (Undefined, st2))"

section \<open>Scene editor: auto-fix (editor.js)\<close>

text \<open>\<open>handleFix(fixType, sceneId)\<close>, on the store it reads and updates. The toast it
  shows is not modelled.\<close>

definition handleFix :: "string \<Rightarrow> int option \<Rightarrow> store \<Rightarrow> store" where
  "handleFix fixType sid st =
     (if fixType = ''duration'' \<and> sid = None then
        (case currentProject st of
           None \<Rightarrow> st
         | Some project \<Rightarrow>
             if scenes st = [] then st
             else
               (let totalDuration = getTotalDuration (scenes st);
                    projectDuration = project_duration project;
                    diff = fsub projectDuration totalDuration
                in if diff = 0 then st
                   else
                     (let lastScene = last (scenes st);
                          newDuration = max 1 (fadd (duration lastScene) diff)
                      in snd (updateScene (scene_id lastScene) [Set_duration newDuration] st))))
      else
        (case sid of
           Some i \<Rightarrow>
             if fixType = ''visual_fx''
             then snd (updateScene i [Set_visual_fx (Some ''static'')] st)
             else st
         | None \<Rightarrow> st))"

section \<open>Canvas preview engine\<close>

text \<open>A scene as the preview receives it: the fields read by the functions below.\<close>

record preview_scene =
  ps_id :: int
  ps_duration :: number
  ps_visual_fx :: "string option"

text \<open>The object \<open>getCurrentScene\<close> returns.\<close>

record current =
  scene :: preview_scene
  localTime :: number
  progress :: number

text \<open>What the engine does to the outside, as the entries of a log: drawing a frame
  (at the current time), calling one of its two callbacks, and the animation frame
  requests and cancellations.\<close>

datatype call =
    Render number
  | OnTimeUpdate number
  | OnPlaybackEnd
  | CancelAnimationFrame nat
  | RequestAnimationFrame nat

text \<open>The engine. \<open>animationId\<close> is \<open>None\<close> for \<open>null\<close>; \<open>overrideDuration\<close> is \<open>None\<close>
  until \<open>setDuration\<close> is called. \<open>calls\<close> is the log of outside calls, oldest first.\<close>

record preview =
  width :: number
  height :: number
  pv_scenes :: "preview_scene list"
  currentTime :: number
  isPlaying :: bool
  lastFrameTime :: number
  animationId :: "nat option"
  overrideDuration :: "number option"
  calls :: "call list"

text \<open>\<open>getCurrentScene()\<close>: the \<open>for\<close> loop over the scenes with the running total
  \<open>accumulated\<close>, which starts at 0. The sums, the difference and the quotient are
  operations on doubles.\<close>

fun getCurrentScene_from :: "number \<Rightarrow> number \<Rightarrow> preview_scene list \<Rightarrow> current option" where
  "getCurrentScene_from accumulated t [] = None"
| "getCurrentScene_from accumulated t (s # rest) =
     (if t \<ge> accumulated \<and> t < fadd accumulated (ps_duration s)
      then Some \<lparr>scene = s, localTime = fsub t accumulated,
                 progress = fdiv (fsub t accumulated) (ps_duration s)\<rparr>
      else getCurrentScene_from (fadd accumulated (ps_duration s)) t rest)"

definition getCurrentScene :: "preview \<Rightarrow> current option" where
  "getCurrentScene pv = getCurrentScene_from 0 (currentTime pv) (pv_scenes pv)"

text \<open>\<open>getTotalDuration()\<close> of the engine; \<open>this.overrideDuration || 0\<close>.\<close>

definition preview_getTotalDuration :: "preview \<Rightarrow> number" where
  "preview_getTotalDuration pv =
     (let scenesDuration = foldl (\<lambda>sum s. fadd sum (ps_duration s)) 0 (pv_scenes pv)
      in max scenesDuration (case overrideDuration pv of None \<Rightarrow> 0 | Some d \<Rightarrow> d))"

text \<open>\<open>pause()\<close>: a handle is truthy when it is not \<open>null\<close> and not 0.\<close>

definition pause :: "preview \<Rightarrow> preview" where
  "pause pv =
     (let pv1 = pv\<lparr>isPlaying := False\<rparr>
      in case animationId pv1 of
           None \<Rightarrow> pv1
         | Some h \<Rightarrow>
             if h \<noteq> 0
             then pv1\<lparr>calls := calls pv1 @ [CancelAnimationFrame h], animationId := None\<rparr>
             else pv1)"

text \<open>\<open>render()\<close> draws the frame of the current time.\<close>

definition render :: "preview \<Rightarrow> preview" where
  "render pv = pv\<lparr>calls := calls pv @ [Render (currentTime pv)]\<rparr>"

text \<open>
  The two callbacks of the engine, \<open>this.onTimeUpdate\<close> and \<open>this.onPlaybackEnd\<close>,
  are functions that the creator of the engine supplies. A callback can hold the engine
  and call its methods: the \<open>onPlaybackEnd\<close> that the video editor supplies calls
  \<open>seek(0)\<close> and \<open>play()\<close> on it when looping is switched on. A callback is therefore
  modelled by what it does to the engine, a function on the engine state. The
  constructor's defaults are the empty function \<open>() => { }\<close>.
\<close>

definition default_onTimeUpdate :: "number \<Rightarrow> preview \<Rightarrow> preview" where
  "default_onTimeUpdate time pv = pv"


text \<open>
  \<open>tick()\<close>, with what it reads from the browser as arguments: \<open>now\<close> is
  \<open>performance.now()\<close>; \<open>external\<close> is \<open>None\<close> when no time source is installed and
  \<open>Some t\<close> when \<open>this.externalTimeSource()\<close> returns \<open>t\<close>; \<open>handle\<close> is what
  \<open>requestAnimationFrame\<close> returns; \<open>onTimeUpdate\<close> and \<open>onPlaybackEnd\<close> are the
  callbacks of the engine. Each call of a callback is logged, and the callback is then
  applied to the engine. The next \<open>tick\<close> is run by the browser.
\<close>

definition tick ::
  "number \<Rightarrow> number option \<Rightarrow> nat \<Rightarrow> (number \<Rightarrow> preview \<Rightarrow> preview)
     \<Rightarrow> (preview \<Rightarrow> preview) \<Rightarrow> preview \<Rightarrow> preview" where
  "tick now external handle onTimeUpdate onPlaybackEnd pv =
     (if \<not> isPlaying pv then pv
      else
        (let pv1 = (case external of
                      Some t \<Rightarrow> pv\<lparr>currentTime := t\<rparr>
                    | None \<Rightarrow>
                        (let delta = fdiv (fsub now (lastFrameTime pv)) 1000
                         in pv\<lparr>lastFrameTime := now,
                               currentTime := fadd (currentTime pv) delta\<rparr>));
             totalDuration = preview_getTotalDuration pv1
         in if currentTime pv1 \<ge> totalDuration then
              (let pv2 = pause (pv1\<lparr>currentTime := 0\<rparr>);
                   pv3 = onPlaybackEnd (pv2\<lparr>calls := calls pv2 @ [OnPlaybackEnd]\<rparr>)
               in render pv3)
            else
              (let pv2 = render pv1;
                   pv3 = onTimeUpdate (currentTime pv2)
                           (pv2\<lparr>calls := calls pv2 @ [OnTimeUpdate (currentTime pv2)]\<rparr>)
               in pv3\<lparr>calls := calls pv3 @ [RequestAnimationFrame handle],
                      animationId := Some handle\<rparr>)))"

text \<open>\<open>easeInOut(t)\<close> and the scale of \<open>applyZoomIn\<close>, as the curves they compute:
  the operations here are exact. The same computations with every operation rounded
  to a double are \<open>easeInOut_double\<close> and \<open>zoomIn_scale_double\<close> below.\<close>

definition easeInOut :: "number \<Rightarrow> number" where
  "easeInOut t = (if t < 0.5 then 2 * t * t else - 1 + (4 - 2 * t) * t)"

text \<open>\<open>applyZoomIn(progress, ...)\<close>: the scale it computes, and the three calls it makes
  on the drawing context.\<close>

datatype ctx_call = Translate number number | Scale number number

definition zoomIn_scale :: "number \<Rightarrow> number" where
  "zoomIn_scale p =
     (let startScale = 1.0;
          endScale = 1.2
      in startScale + (endScale - startScale) * easeInOut p)"

definition applyZoomIn :: "number \<Rightarrow> preview \<Rightarrow> ctx_call list" where
  "applyZoomIn p pv =
     (let scale = zoomIn_scale p;
          centerX = width pv / 2;
          centerY = height pv / 2
      in [Translate centerX centerY, Scale scale scale, Translate (- centerX) (- centerY)])"

section \<open>Notions used in the statements\<close>

text \<open>A committed edit: one call of \<open>updateScene\<close>, \<open>addScene\<close> or \<open>removeScene\<close>;
  a sequence of calls runs them in order on the store.\<close>

datatype edit = UpdateScene int "property list" | AddScene scene | RemoveScene int

fun apply_edit :: "edit \<Rightarrow> store \<Rightarrow> completion \<times> store" where
  "apply_edit (UpdateScene sid patch) st = updateScene sid patch st"
| "apply_edit (AddScene s) st = addScene s st"
| "apply_edit (RemoveScene sid) st = removeScene sid st"


text \<open>The call \<open>set({ scenes })\<close> that every scene mutation of the store and of the
  application makes to commit an edit.\<close>

definition commit :: "scene list \<Rightarrow> store \<Rightarrow> store" where
  "commit ns st = set_store (no_updates\<lparr>u_scenes := Some ns\<rparr>) False st"

text \<open>The history invariant: at most \<open>MAX_HISTORY\<close> entries, and the cursor is \<open>-1\<close> on
  an empty history and a position of the list otherwise.\<close>

definition history_ok :: "store \<Rightarrow> bool" where
  "history_ok st =
     (length (history st) \<le> MAX_HISTORY
      \<and> (if history st = [] then historyIndex st = - 1
         else 0 \<le> historyIndex st \<and> historyIndex st < int (length (history st))))"

text \<open>The start of scene \<open>k\<close> of the preview: the sum of the durations before it,
  added from left to right as doubles.\<close>

definition cumulative_start :: "preview_scene list \<Rightarrow> nat \<Rightarrow> number" where
  "cumulative_start ss k = foldl fadd 0 (map ps_duration (take k ss))"


text \<open>The duration-mismatch warnings and the \<open>visual_fx\<close> diagnostics of a list.\<close>

definition duration_mismatch :: "diagnostic list \<Rightarrow> diagnostic list" where
  "duration_mismatch ds =
     filter (\<lambda>d. type d = WARNING \<and> field d = ''duration'' \<and> sceneId d = None) ds"

definition visual_fx_diagnostics :: "diagnostic list \<Rightarrow> diagnostic list" where
  "visual_fx_diagnostics ds = filter (\<lambda>d. field d = ''visual_fx'') ds"

text \<open>Example data: a visual scene with a prompt, and a store with an open project.\<close>

definition example_scene :: "int \<Rightarrow> number \<Rightarrow> string \<Rightarrow> scene" where
  "example_scene i d ts =
     \<lparr>scene_id = i, scene_type = ''hook'', duration = d, timestamp = ts,
      prompt = Some ''a street at night'', text_content = None, visual_fx = Some ''static''\<rparr>"

definition example_scenes :: "scene list" where
  "example_scenes =
     [example_scene 1 3 ''0:00'', example_scene 2 4 ''0:03'', example_scene 3 3 ''0:07'']"

definition example_store :: "number \<Rightarrow> store" where
  "example_store target =
     snd (setScenes example_scenes True
            (constructor\<lparr>currentProject :=
               Some \<lparr>project_id = ''proj_1'', project_duration = target\<rparr>\<rparr>))"

definition example_preview :: preview where
  "example_preview =
     \<lparr>width = 1080, height = 1920,
      pv_scenes = [\<lparr>ps_id = 1, ps_duration = 3, ps_visual_fx = Some ''zoom_in''\<rparr>,
                   \<lparr>ps_id = 2, ps_duration = 4, ps_visual_fx = None\<rparr>,
                   \<lparr>ps_id = 3, ps_duration = 3, ps_visual_fx = Some ''fade''\<rparr>],
      currentTime = 5, isPlaying = True, lastFrameTime = 1000, animationId = Some 7,
      overrideDuration = None, calls = []\<rparr>"

text \<open>The history and the cursor that \<open>_pushHistory\<close> leaves, as functions of the
  history \<open>h\<close> and the cursor \<open>i\<close> before the call.\<close>

definition pushed_history :: "scene list list \<Rightarrow> int \<Rightarrow> scene list \<Rightarrow> scene list list" where
  "pushed_history h i snapshot =
     (let h1 = (if i < int (length h) - 1 then slice0 h (i + 1) else h) @ [snapshot]
      in if length h1 > MAX_HISTORY then tl h1 else h1)"

definition pushed_index :: "scene list list \<Rightarrow> int \<Rightarrow> int" where
  "pushed_index h i =
     (let h1 = (if i < int (length h) - 1 then slice0 h (i + 1) else h)
      in if Suc (length h1) > MAX_HISTORY then i else i + 1)"

text \<open>More example data. \<open>edited_store\<close>: the scenes are loaded and the first one is
  edited. \<open>stale_store\<close>: scenes are set with \<open>_skipTimestampCalc\<close>, so a stored
  timestamp is not the calculated one. \<open>overlong_store\<close>: a history of 21 entries is
  assigned through \<open>set\<close>.\<close>

definition edited_store :: store where
  "edited_store = snd (updateScene 1 [Set_duration 5] (example_store 10))"

definition stale_store :: store where
  "stale_store =
     set_store (no_updates\<lparr>u_scenes := Some [example_scene 1 3 ''9:99''],
                           u_skipTimestampCalc := Some True\<rparr>) True constructor"


definition fractional_scenes :: "scene list" where
  "fractional_scenes =
     [example_scene 1 (117/2) ''9:99'', example_scene 2 4 ''0:00'', example_scene 3 3 ''0:00'']"

text \<open>Data with durations that are not whole seconds: scenes of 0.1, 0.2, 0.7 and 1.0
  seconds (the doubles of these literals); ten scenes of 0.1 seconds and one more; and
  an engine with scenes of 2.4 and 4.6 seconds whose current time is
  6.999999999999999, the greatest double below 7.\<close>

definition rounded_scenes :: "scene list" where
  "rounded_scenes =
     [example_scene 1 (round_double 0.1) ''0:00'', example_scene 2 (round_double 0.2) ''0:00'',
      example_scene 3 (round_double 0.7) ''0:00'', example_scene 4 1.0 ''0:00'']"

definition tenth_scenes :: "scene list" where
  "tenth_scenes =
     map (\<lambda>i. example_scene (int i + 1) (round_double 0.1) ''0:00'') [0 ..< 10]
     @ [example_scene 11 1.0 ''0:00'']"

definition rounding_preview :: preview where
  "rounding_preview =
     \<lparr>width = 1080, height = 1920,
      pv_scenes = [\<lparr>ps_id = 1, ps_duration = round_double 2.4, ps_visual_fx = None\<rparr>,
                   \<lparr>ps_id = 2, ps_duration = round_double 4.6, ps_visual_fx = None\<rparr>],
      currentTime = 7 - 1 / 2 ^ 50, isPlaying = False, lastFrameTime = 0, animationId = None,
      overrideDuration = None, calls = []\<rparr>"


section \<open>The zoom computation in double precision\<close>

text \<open>
  The engine computes the zoom scale in double precision: each arithmetic operation of
  the source is the exact operation followed by \<open>round_double\<close>; the literal \<open>1.2\<close> is
  the double nearest to \<open>6/5\<close>, and the literals \<open>0.5\<close>, \<open>1.0\<close>, \<open>2\<close> and \<open>4\<close> are
  doubles.
\<close>

definition easeInOut_double :: "number \<Rightarrow> number" where
  "easeInOut_double t =
     (if t < 0.5 then round_double (round_double (2 * t) * t)
      else round_double (- 1 + round_double (round_double (4 - round_double (2 * t)) * t)))"

definition zoomIn_scale_double :: "number \<Rightarrow> number" where
  "zoomIn_scale_double p =
     (let startScale = 1.0;
          endScale = round_double 1.2
      in round_double (startScale
           + round_double (round_double (endScale - startScale) * easeInOut_double p)))"

section \<open>Rounding to double precision\<close>

lemma pow2_powi: "pow2 k = 2 powi k"
  by (simp add: pow2_def power_int_def field_simps)

lemma pow2_pos: "0 < pow2 k"
  by (simp add: pow2_powi)

lemma pow2_add: "pow2 (a + b) = pow2 a * pow2 b"
  by (simp add: pow2_powi power_int_add)

lemma pow2_0: "pow2 0 = 1"
  by (simp add: pow2_def)

lemma pow2_Suc: "pow2 (k + 1) = 2 * pow2 k"
  by (simp add: pow2_add) (simp add: pow2_def)

lemma pow2_nat: "pow2 (int n) = 2 ^ n"
  by (simp add: pow2_def)

lemma pow2_less: "a < b \<Longrightarrow> pow2 a < pow2 b"
  by (simp add: pow2_powi power_int_strict_increasing)

lemma pow2_le: "a \<le> b \<Longrightarrow> pow2 a \<le> pow2 b"
  by (simp add: pow2_powi power_int_increasing)

lemma pow2_less_cancel: "pow2 a < pow2 b \<Longrightarrow> a < b"
  using pow2_le[of b a] by (cases "a < b") simp_all

lemma binade_unique:
  assumes "pow2 a \<le> x" "x < pow2 (a + 1)" "pow2 b \<le> x" "x < pow2 (b + 1)"
  shows "a = b"
proof -
  from assms have "pow2 a < pow2 (b + 1)" "pow2 b < pow2 (a + 1)" by simp_all
  then have "a < b + 1" "b < a + 1" by (auto dest: pow2_less_cancel)
  then show ?thesis by simp
qed

lemma binade_bounds:
  assumes "0 < x"
  shows "pow2 (binade x) \<le> x \<and> x < pow2 (binade x + 1)"
proof -
  obtain p q where pq: "quotient_of x = (p, q)" by (cases "quotient_of x")
  then have q: "0 < q" by (rule quotient_of_denom_pos)
  from pq have x: "x = of_int p / of_int q" by (rule quotient_of_div)
  with assms q have p: "0 < p" by (simp add: zero_less_divide_iff)
  define e where "e = bitlen p - bitlen q"
  from bitlen_bounds[OF p] have p1: "2 ^ nat (bitlen p - 1) \<le> p" and p2: "p < 2 ^ nat (bitlen p)"
    by simp_all
  from bitlen_bounds[OF q] have q1: "2 ^ nat (bitlen q - 1) \<le> q" and q2: "q < 2 ^ nat (bitlen q)"
    by simp_all
  from p have bp: "1 \<le> bitlen p" by (auto simp: bitlen_alt_def)
  from q have bq: "1 \<le> bitlen q" by (auto simp: bitlen_alt_def)
  have P1: "pow2 (bitlen p - 1) \<le> of_int p"
  proof -
    from p1 have "(of_int (2 ^ nat (bitlen p - 1)) :: rat) \<le> of_int p" by (simp only: of_int_le_iff)
    with bp show ?thesis by (simp add: pow2_def)
  qed
  have P2: "of_int p < pow2 (bitlen p)"
  proof -
    from p2 have "(of_int p :: rat) < of_int (2 ^ nat (bitlen p))" by (simp only: of_int_less_iff)
    with bp show ?thesis by (simp add: pow2_def)
  qed
  have Q1: "pow2 (bitlen q - 1) \<le> of_int q"
  proof -
    from q1 have "(of_int (2 ^ nat (bitlen q - 1)) :: rat) \<le> of_int q" by (simp only: of_int_le_iff)
    with bq show ?thesis by (simp add: pow2_def)
  qed
  have Q2: "of_int q < pow2 (bitlen q)"
  proof -
    from q2 have "(of_int q :: rat) < of_int (2 ^ nat (bitlen q))" by (simp only: of_int_less_iff)
    with bq show ?thesis by (simp add: pow2_def)
  qed
  have qpos: "(0::rat) < of_int q" using q by simp
  have lo: "pow2 (e - 1) \<le> x"
  proof -
    have "pow2 (e - 1) * of_int q \<le> pow2 (e - 1) * pow2 (bitlen q)"
      using Q2 pow2_pos[of "e - 1"] by (simp add: less_imp_le)
    also have "\<dots> = pow2 (bitlen p - 1)"
      by (simp add: e_def flip: pow2_add)
    also have "\<dots> \<le> of_int p" by (rule P1)
    finally show ?thesis using qpos by (simp add: x pos_le_divide_eq)
  qed
  have hi: "x < pow2 (e + 1)"
  proof -
    have "of_int p < pow2 (bitlen p)" by (rule P2)
    also have "\<dots> = pow2 (e + 1) * pow2 (bitlen q - 1)"
      by (simp add: e_def flip: pow2_add)
    also have "\<dots> \<le> pow2 (e + 1) * of_int q"
      using Q1 pow2_pos[of "e + 1"] by simp
    finally show ?thesis using qpos by (simp add: x pos_divide_less_eq)
  qed
  have b: "binade x = (if x < pow2 e then e - 1 else e)"
    by (simp add: binade_def pq e_def Let_def)
  show ?thesis
  proof (cases "x < pow2 e")
    case True
    with b lo show ?thesis by simp
  next
    case False
    with b hi show ?thesis by simp
  qed
qed

lemma binade_eq:
  assumes "pow2 e \<le> x" "x < pow2 (e + 1)"
  shows "binade x = e"
proof -
  from assms(1) pow2_pos[of e] have "0 < x" by simp
  from binade_bounds[OF this] assms show ?thesis by (blast intro: binade_unique)
qed

lemma binade_mono:
  assumes "0 < x" "x \<le> y"
  shows "binade x \<le> binade y"
proof -
  from assms have "0 < y" by simp
  from binade_bounds[OF assms(1)] binade_bounds[OF this] assms(2)
  have "pow2 (binade x) < pow2 (binade y + 1)" by simp
  then have "binade x < binade y + 1" by (rule pow2_less_cancel)
  then show ?thesis by simp
qed

lemma round_half_even_of_int: "round_half_even (of_int n) = n"
  by (simp add: round_half_even_def)

lemma round_half_even_bounds:
  "\<lfloor>m\<rfloor> \<le> round_half_even m \<and> round_half_even m \<le> \<lfloor>m\<rfloor> + 1"
  by (simp add: round_half_even_def Let_def)

lemma round_half_even_error:
  "\<bar>of_int (round_half_even m) - m\<bar> \<le> 1/2"
proof -
  define r where "r = m - of_int \<lfloor>m\<rfloor>"
  have r: "0 \<le> r" "r < 1" unfolding r_def by linarith+
  have "of_int (round_half_even m) - m
      = (if r < 1/2 then - r else if 1/2 < r then 1 - r else if even \<lfloor>m\<rfloor> then - r else 1 - r)"
    by (simp add: round_half_even_def Let_def r_def)
  with r show ?thesis by (auto simp: abs_if split: if_splits)
qed

lemma round_half_even_mono:
  assumes "a \<le> b"
  shows "round_half_even a \<le> round_half_even b"
proof (cases "\<lfloor>a\<rfloor> = \<lfloor>b\<rfloor>")
  case True
  with assms show ?thesis by (auto simp: round_half_even_def Let_def)
next
  case False
  with assms have "\<lfloor>a\<rfloor> < \<lfloor>b\<rfloor>" by (simp add: floor_mono le_neq_trans)
  then have "\<lfloor>a\<rfloor> + 1 \<le> \<lfloor>b\<rfloor>" by simp
  with round_half_even_bounds[of a] round_half_even_bounds[of b] show ?thesis by linarith
qed

text \<open>The rounding of a positive number, and the range of its result.\<close>

lemma round_double_pos:
  "0 < x \<Longrightarrow> round_double x
     = of_int (round_half_even (x / pow2 (binade x - 52))) * pow2 (binade x - 52)"
  by (simp add: round_double_def Let_def)

lemma round_double_neg: "round_double (- x) = - round_double x"
  by (simp add: round_double_def Let_def)

lemma pow2_split: "pow2 e = 2 ^ 52 * pow2 (e - 52)"
proof -
  have "pow2 e = pow2 (52 + (e - 52))" by simp
  also have "\<dots> = pow2 52 * pow2 (e - 52)" by (rule pow2_add)
  finally show ?thesis by (simp add: pow2_def)
qed

lemma significand_range:
  assumes "0 < x"
  shows "2 ^ 52 \<le> x / pow2 (binade x - 52) \<and> x / pow2 (binade x - 52) < 2 ^ 53"
proof -
  note b = binade_bounds[OF assms]
  have u: "0 < pow2 (binade x - 52)" by (rule pow2_pos)
  from b pow2_split[of "binade x"] have "2 ^ 52 * pow2 (binade x - 52) \<le> x" by simp
  with u have lo: "2 ^ 52 \<le> x / pow2 (binade x - 52)" by (simp add: pos_le_divide_eq)
  have "pow2 (binade x + 1) = 2 * pow2 (binade x)" by (rule pow2_Suc)
  also have "\<dots> = 2 ^ 53 * pow2 (binade x - 52)" by (subst pow2_split) simp
  finally have "x < 2 ^ 53 * pow2 (binade x - 52)" using b by simp
  with u have "x / pow2 (binade x - 52) < 2 ^ 53" by (simp add: pos_divide_less_eq)
  with lo show ?thesis by simp
qed

lemma round_significand_range:
  assumes "0 < x"
  shows "2 ^ 52 \<le> round_half_even (x / pow2 (binade x - 52))
       \<and> round_half_even (x / pow2 (binade x - 52)) \<le> 2 ^ 53"
proof -
  note s = significand_range[OF assms]
  from s have "(of_int (2 ^ 52) :: rat) \<le> x / pow2 (binade x - 52)" by simp
  from round_half_even_mono[OF this] have lo: "2 ^ 52 \<le> round_half_even (x / pow2 (binade x - 52))"
    by (simp only: round_half_even_of_int)
  from s have "x / pow2 (binade x - 52) \<le> (of_int (2 ^ 53) :: rat)" by simp
  from round_half_even_mono[OF this] have "round_half_even (x / pow2 (binade x - 52)) \<le> 2 ^ 53"
    by (simp only: round_half_even_of_int)
  with lo show ?thesis by simp
qed

lemma round_double_range:
  assumes "0 < x"
  shows "pow2 (binade x) \<le> round_double x \<and> round_double x \<le> pow2 (binade x + 1)"
proof -
  define n where "n = round_half_even (x / pow2 (binade x - 52))"
  define u where "u = pow2 (binade x - 52)"
  have u: "0 < u" unfolding u_def by (rule pow2_pos)
  from round_significand_range[OF assms] have "2 ^ 52 \<le> n" "n \<le> 2 ^ 53" by (simp_all add: n_def)
  then have n: "(2 ^ 52 :: rat) \<le> of_int n" "(of_int n :: rat) \<le> 2 ^ 53"
    by (metis of_int_le_iff of_int_numeral of_int_power)+
  have r: "round_double x = of_int n * u"
    using assms by (simp add: round_double_pos n_def u_def)
  have a: "pow2 (binade x) = 2 ^ 52 * u" unfolding u_def by (rule pow2_split)
  have "pow2 (binade x + 1) = 2 * pow2 (binade x)" by (rule pow2_Suc)
  then have b: "pow2 (binade x + 1) = 2 ^ 53 * u" by (simp add: a)
  from n u show ?thesis unfolding r a b by simp
qed

lemma round_double_pos_pos: "0 < x \<Longrightarrow> 0 < round_double x"
  using round_double_range[of x] pow2_pos[of "binade x"] by simp

lemma round_double_0: "round_double 0 = 0"
  by (simp add: round_double_def)

lemma round_double_mono_pos:
  assumes "0 < x" "x \<le> y"
  shows "round_double x \<le> round_double y"
proof -
  from assms have y: "0 < y" by simp
  from binade_mono[OF assms] have "binade x = binade y \<or> binade x + 1 \<le> binade y" by linarith
  then show ?thesis
  proof
    assume e: "binade x = binade y"
    have u: "0 < pow2 (binade y - 52)" by (rule pow2_pos)
    with assms(2) have "x / pow2 (binade y - 52) \<le> y / pow2 (binade y - 52)"
      by (simp add: divide_right_mono)
    from round_half_even_mono[OF this] u show ?thesis
      by (simp add: round_double_pos assms(1) y e)
  next
    assume "binade x + 1 \<le> binade y"
    then have "pow2 (binade x + 1) \<le> pow2 (binade y)" by (rule pow2_le)
    with round_double_range[OF assms(1)] round_double_range[OF y] show ?thesis by simp
  qed
qed

lemma round_double_mono:
  assumes "x \<le> y"
  shows "round_double x \<le> round_double y"
proof -
  consider "0 < x" | "x \<le> 0" "0 \<le> y" | "y < 0" by linarith
  then show ?thesis
  proof cases
    case 1
    from 1 assms show ?thesis by (rule round_double_mono_pos)
  next
    case 2
    have "round_double x \<le> 0"
    proof (cases "x = 0")
      case True
      then show ?thesis by (simp add: round_double_0)
    next
      case False
      with 2 have "0 < - x" by simp
      from round_double_pos_pos[OF this] show ?thesis by (simp add: round_double_neg)
    qed
    moreover have "0 \<le> round_double y"
    proof (cases "y = 0")
      case True
      then show ?thesis by (simp add: round_double_0)
    next
      case False
      with 2 have "0 < y" by simp
      from round_double_pos_pos[OF this] show ?thesis by simp
    qed
    ultimately show ?thesis by simp
  next
    case 3
    with assms have "0 < - y" "- y \<le> - x" by simp_all
    from round_double_mono_pos[OF this] show ?thesis by (simp add: round_double_neg)
  qed
qed

text \<open>A number whose significand is an integer is a double; so a rounded number is.\<close>

lemma round_double_exact:
  assumes "0 < x" "x / pow2 (binade x - 52) = of_int n"
  shows "round_double x = x"
proof -
  have u: "pow2 (binade x - 52) \<noteq> 0" using pow2_pos[of "binade x - 52"] by simp
  from assms(2) u have "x = of_int n * pow2 (binade x - 52)" by (simp add: field_simps)
  then show ?thesis
    using assms by (simp add: round_double_pos round_half_even_of_int)
qed

lemma round_double_idem_pos:
  assumes "0 < x"
  shows "round_double (round_double x) = round_double x"
proof -
  define n where "n = round_half_even (x / pow2 (binade x - 52))"
  define u where "u = pow2 (binade x - 52)"
  define y where "y = round_double x"
  have u: "0 < u" unfolding u_def by (rule pow2_pos)
  from round_significand_range[OF assms] have n: "2 ^ 52 \<le> n" "n \<le> 2 ^ 53" by (simp_all add: n_def)
  have r: "y = of_int n * u"
    using assms by (simp add: y_def round_double_pos n_def u_def)
  have y: "0 < y" unfolding y_def using assms by (rule round_double_pos_pos)
  have a: "pow2 (binade x) = 2 ^ 52 * u" unfolding u_def by (rule pow2_split)
  have "pow2 (binade x + 1) = 2 * pow2 (binade x)" by (rule pow2_Suc)
  then have b: "pow2 (binade x + 1) = 2 ^ 53 * u" by (simp add: a)
  show ?thesis
  proof (cases "n = 2 ^ 53")
    case True
    then have yb: "y = pow2 (binade x + 1)" by (simp add: r b)
    have "pow2 (binade x + 1) < pow2 (binade x + 1 + 1)" by (rule pow2_less) simp
    with yb have e: "binade y = binade x + 1" by (intro binade_eq) simp_all
    have "pow2 (binade x + 1) = 2 ^ 52 * pow2 (binade x + 1 - 52)" by (rule pow2_split)
    with yb e have "y / pow2 (binade y - 52) = of_int (2 ^ 52)"
      using pow2_pos[of "binade x + 1 - 52"] by simp
    from round_double_exact[OF y this] show ?thesis by (simp add: y_def)
  next
    case False
    with n have "n < 2 ^ 53" by simp
    then have "(of_int n :: rat) < 2 ^ 53"
      by (metis of_int_less_iff of_int_numeral of_int_power)
    moreover from n have "(2 ^ 52 :: rat) \<le> of_int n"
      by (metis of_int_le_iff of_int_numeral of_int_power)
    ultimately have "pow2 (binade x) \<le> y" "y < pow2 (binade x + 1)"
      using u by (simp_all add: r a b)
    then have e: "binade y = binade x" by (rule binade_eq)
    have "y / pow2 (binade y - 52) = y / u" by (simp only: e u_def)
    also from u have "\<dots> = of_int n" by (simp add: r)
    finally have "y / pow2 (binade y - 52) = of_int n" .
    from round_double_exact[OF y this] show ?thesis by (simp add: y_def)
  qed
qed

lemma round_double_idem: "round_double (round_double x) = round_double x"
proof -
  consider "0 < x" | "x = 0" | "0 < - x" by linarith
  then show ?thesis
  proof cases
    case 1
    then show ?thesis by (rule round_double_idem_pos)
  next
    case 2
    then show ?thesis by (simp add: round_double_0)
  next
    case 3
    from round_double_idem_pos[OF this] show ?thesis by (simp add: round_double_neg)
  qed
qed

text \<open>The rounding error is at most half a unit in the last place.\<close>

lemma round_double_error:
  assumes "0 < x"
  shows "\<bar>round_double x - x\<bar> \<le> x / 2 ^ 53"
proof -
  define u where "u = pow2 (binade x - 52)"
  define m where "m = x / u"
  have u: "0 < u" unfolding u_def by (rule pow2_pos)
  then have x: "x = m * u" by (simp add: m_def)
  have r: "round_double x = of_int (round_half_even m) * u"
    using assms by (simp add: round_double_pos m_def u_def)
  have "\<bar>round_double x - x\<bar> = \<bar>of_int (round_half_even m) - m\<bar> * u"
    using u by (subst x) (simp add: r abs_mult flip: left_diff_distrib)
  also have "\<dots> \<le> (1/2) * u"
    using round_half_even_error[of m] u by (intro mult_right_mono) simp_all
  also have "\<dots> = pow2 (binade x) / 2 ^ 53"
    by (subst pow2_split) (simp add: u_def)
  also have "\<dots> \<le> x / 2 ^ 53"
    using binade_bounds[OF assms] by (simp add: divide_right_mono)
  finally show ?thesis .
qed

text \<open>Every multiple of \<open>1/2^k\<close> with a numerator below \<open>2^53\<close> is a double; so is
  every integer below \<open>2^53\<close>.\<close>

lemma round_double_dyadic:
  assumes "n < 2 ^ 53"
  shows "round_double (of_nat n / 2 ^ k) = of_nat n / 2 ^ k"
proof (cases "n = 0")
  case True
  then show ?thesis by (simp add: round_double_0)
next
  case False
  define x :: rat where "x = of_nat n / 2 ^ k"
  from False have x: "0 < x" by (simp add: x_def)
  note b = binade_bounds[OF x]
  have n: "(of_nat n :: rat) < 2 ^ 53" using assms
    by (metis of_nat_less_iff of_nat_numeral of_nat_power)
  have "pow2 (53 - int k) * 2 ^ k = pow2 (53 - int k) * pow2 (int k)" by (simp add: pow2_nat)
  also have "\<dots> = pow2 53" by (simp flip: pow2_add)
  also have "\<dots> = 2 ^ 53" by (simp add: pow2_def)
  finally have "of_nat n < pow2 (53 - int k) * 2 ^ k" using n by simp
  then have "x < pow2 (53 - int k)" by (simp add: x_def pos_divide_less_eq)
  with b have "pow2 (binade x) < pow2 (53 - int k)" by simp
  then have e: "binade x < 53 - int k" by (rule pow2_less_cancel)
  define j where "j = nat (52 - int k - binade x)"
  from e have j: "binade x - 52 = - int (k + j)" by (simp add: j_def)
  have "pow2 (- int (k + j)) * pow2 (int (k + j)) = 1" by (simp flip: pow2_add add: pow2_0)
  then have "pow2 (- int (k + j)) = 1 / 2 ^ (k + j)" using pow2_pos[of "int (k + j)"]
    by (simp only: pow2_nat) (simp add: field_simps)
  then have "x / pow2 (binade x - 52) = of_int (int n * 2 ^ j)"
    unfolding j by (simp add: x_def power_add)
  from round_double_exact[OF x this] show ?thesis by (simp add: x_def)
qed

lemma round_double_of_nat:
  assumes "n < 2 ^ 53"
  shows "round_double (of_nat n) = of_nat n"
  using round_double_dyadic[OF assms, of 0] by simp

lemma round_double_1: "round_double 1 = 1"
  using round_double_of_nat[of 1] by simp

lemma round_double_eq_0_iff: "round_double x = 0 \<longleftrightarrow> x = 0"
proof
  assume r: "round_double x = 0"
  show "x = 0"
  proof (rule ccontr)
    assume "x \<noteq> 0"
    then consider "0 < x" | "0 < - x" by linarith
    then show False
    proof cases
      case 1
      from round_double_pos_pos[OF this] r show False by simp
    next
      case 2
      from round_double_pos_pos[OF this] r show False by (simp add: round_double_neg)
    qed
  qed
next
  assume "x = 0"
  then show "round_double x = 0" by (simp add: round_double_0)
qed

text \<open>Sums, differences and quotients of numbers are doubles; adding a number that
  is not negative to a double does not make it smaller.\<close>

lemma is_double_0: "is_double 0"
  by (simp add: is_double_def round_double_0)

lemma is_double_round: "is_double (round_double x)"
  by (simp add: is_double_def round_double_idem)

lemma is_double_fadd: "is_double (fadd a b)"
  by (simp add: fadd_def is_double_round)

lemma fadd_ge:
  assumes "is_double a" "0 \<le> d"
  shows "a \<le> fadd a d"
proof -
  from assms(2) have "a \<le> a + d" by simp
  from round_double_mono[OF this] assms(1) show ?thesis by (simp add: fadd_def is_double_def)
qed

lemma foldl_fadd_ge:
  "is_double a \<Longrightarrow> \<forall>d \<in> set ds. 0 < d \<Longrightarrow> a \<le> foldl fadd a ds"
proof (induction ds arbitrary: a)
  case Nil
  then show ?case by simp
next
  case (Cons d ds)
  from Cons.prems have "a \<le> fadd a d" by (simp add: fadd_ge)
  also from Cons.prems have "\<dots> \<le> foldl fadd (fadd a d) ds"
    by (intro Cons.IH) (simp_all add: is_double_fadd)
  finally show ?case by simp
qed

lemma is_double_foldl_fadd: "is_double a \<Longrightarrow> is_double (foldl fadd a ds)"
  by (induction ds arbitrary: a) (simp_all add: is_double_fadd)

text \<open>The left-to-right sum of doubles that are multiples of \<open>1/2^k\<close> is the exact sum,
  as long as the numerators add up to less than \<open>2^53\<close>.\<close>

lemma foldl_fadd_dyadic:
  "a + sum_list ns < 2 ^ 53
     \<Longrightarrow> foldl fadd (of_nat a / 2 ^ k) (map (\<lambda>n. of_nat n / 2 ^ k) ns)
           = of_nat (a + sum_list ns) / 2 ^ k"
proof (induction ns arbitrary: a)
  case Nil
  then show ?case by simp
next
  case (Cons n ns)
  from Cons.prems have lt: "a + n < 2 ^ 53" and rest: "(a + n) + sum_list ns < 2 ^ 53" by simp_all
  have "fadd (of_nat a / 2 ^ k) (of_nat n / 2 ^ k) = round_double (of_nat (a + n) / 2 ^ k)"
    by (simp add: fadd_def add_divide_distrib)
  also have "\<dots> = of_nat (a + n) / 2 ^ k" using lt by (rule round_double_dyadic)
  finally have "fadd (of_nat a / 2 ^ k) (of_nat n / 2 ^ k) = of_nat (a + n) / 2 ^ k" .
  with Cons.IH[OF rest] show ?case by (simp add: add.assoc)
qed

text \<open>The minutes of a time: for a whole number of seconds below \<open>2^53\<close>, the floor of
  the double quotient by 60 is the integer quotient.\<close>

lemma floor_fdiv_60:
  assumes "0 \<le> n" "n < 2 ^ 53"
  shows "\<lfloor>fdiv (of_int n) 60\<rfloor> = n div 60"
proof (cases "n = 0")
  case True
  then show ?thesis by (simp add: fdiv_def round_double_0)
next
  case False
  define x :: rat where "x = of_int n / 60"
  define q where "q = n div 60"
  from False assms have x: "0 < x" by (simp add: x_def)
  from assms have q0: "0 \<le> q" by (simp add: q_def pos_imp_zdiv_nonneg_iff)
  have n: "n = 60 * q + n mod 60" by (simp add: q_def)
  have "0 \<le> n mod 60" by simp
  with n q0 have "q \<le> n" by linarith
  with assms have "nat q < 2 ^ 53" using q0 by (simp add: nat_less_iff)
  from round_double_of_nat[OF this] q0 have rq: "round_double (of_int q) = of_int q" by simp
  have "(of_int n :: rat) = of_int (60 * q + n mod 60)" using n by simp
  then have xq: "x = of_int q + of_int (n mod 60) / 60" by (simp add: x_def)
  have m: "0 \<le> n mod 60" "n mod 60 \<le> 59" by simp_all
  then have m': "(0::rat) \<le> of_int (n mod 60)" "(of_int (n mod 60) :: rat) \<le> 59"
    by (simp, metis of_int_le_iff of_int_numeral)
  from m' have lo: "of_int q \<le> x" by (simp add: xq)
  from m' have hi: "x \<le> of_int q + 59 / 60" by (simp add: xq)
  from round_double_mono[OF lo] rq have a: "of_int q \<le> round_double x" by simp
  have "(of_int n :: rat) < 2 ^ 53" using assms(2)
    by (metis of_int_less_iff of_int_numeral of_int_power)
  then have "x / 2 ^ 53 < 1 / 60" by (simp add: x_def)
  with round_double_error[OF x] have "round_double x < x + 1 / 60" by linarith
  with hi have b: "round_double x < of_int q + 1" by linarith
  from a b have "\<lfloor>round_double x\<rfloor> = q" by (intro floor_unique) simp_all
  then show ?thesis by (simp add: fdiv_def x_def q_def)
qed

text \<open>The progress of a scene: for doubles \<open>t\<close> and \<open>d\<close>, when \<open>t\<close> is at or after the
  start \<open>a\<close> of the scene and before \<open>a + d\<close> as the engine computes it, the quotient of
  \<open>t - a\<close> by \<open>d\<close> that the engine computes lies between 0 and 1.\<close>

lemma progress_range:
  assumes "is_double t" "is_double d" "0 < d" "a \<le> t" "t < fadd a d"
  shows "0 \<le> fdiv (fsub t a) d \<and> fdiv (fsub t a) d \<le> 1"
proof -
  have le: "t \<le> a + d"
  proof (rule ccontr)
    assume "\<not> t \<le> a + d"
    then have "a + d \<le> t" by simp
    from round_double_mono[OF this] assms(1) have "fadd a d \<le> t"
      by (simp add: fadd_def is_double_def)
    with assms(5) show False by simp
  qed
  from assms(4) have "0 \<le> t - a" by simp
  from round_double_mono[OF this] have s0: "0 \<le> fsub t a" by (simp add: fsub_def round_double_0)
  from le have "t - a \<le> d" by simp
  from round_double_mono[OF this] assms(2) have s1: "fsub t a \<le> d"
    by (simp add: fsub_def is_double_def)
  from s0 assms(3) have "0 \<le> fsub t a / d" by simp
  from round_double_mono[OF this] have p0: "0 \<le> fdiv (fsub t a) d"
    by (simp add: fdiv_def round_double_0)
  from s1 assms(3) have "fsub t a / d \<le> 1" by simp
  from round_double_mono[OF this] have "fdiv (fsub t a) d \<le> 1"
    by (simp add: fdiv_def round_double_1)
  with p0 show ?thesis by simp
qed

section \<open>Timestamps\<close>

lemma nat_str_small: "n < 10 \<Longrightarrow> nat_str n = [digit_char n]"
  by (simp add: nat_str.simps)

lemma nat_str_large: "\<not> n < 10 \<Longrightarrow> nat_str n = nat_str (n div 10) @ [digit_char (n mod 10)]"
  by (subst nat_str.simps) simp

lemma nat_str_two_digits:
  assumes "10 \<le> n" "n < 100"
  shows "nat_str n = [digit_char (n div 10), digit_char (n mod 10)]"
proof -
  from assms have "n div 10 < 10" by simp
  then have "nat_str (n div 10) = [digit_char (n div 10)]" by (rule nat_str_small)
  moreover from assms have "\<not> n < 10" by simp
  ultimately show ?thesis by (simp add: nat_str_large)
qed

lemma padStart_seconds:
  assumes "n < 60"
  shows "padStart 2 (CHR ''0'') (nat_str n) = [digit_char (n div 10), digit_char (n mod 10)]"
proof (cases "n < 10")
  case True
  then show ?thesis by (simp add: padStart_def nat_str_small digit_char_def)
next
  case False
  with assms have "10 \<le> n" "n < 100" by simp_all
  then show ?thesis by (simp add: padStart_def nat_str_two_digits)
qed

lemma js_rem_nonneg: "0 \<le> a \<Longrightarrow> js_rem a 60 = a mod 60"
  by (cases "a = 0") (simp_all add: js_rem_def)

lemma int_str_nonneg: "0 \<le> i \<Longrightarrow> int_str i = nat_str (nat i)"
  by (simp add: int_str_def)

text \<open>From 0 on (and below \<open>2^53\<close>), a time prints as the minutes, a colon and the
  two digits of the seconds; both are taken from the floor of the time.\<close>

lemma formatTimestamp_nonneg:
  assumes "0 \<le> c" "c < 2 ^ 53"
  shows "formatTimestamp c =
           nat_str (nat (\<lfloor>c\<rfloor> div 60)) @ '':''
           @ [digit_char (nat (\<lfloor>c\<rfloor> mod 60) div 10), digit_char (nat (\<lfloor>c\<rfloor> mod 60) mod 10)]"
proof -
  from assms have f: "0 \<le> \<lfloor>c\<rfloor>" by simp
  from assms(2) have "c < of_int (2 ^ 53)" by simp
  then have "\<lfloor>c\<rfloor> < 2 ^ 53" by (simp only: floor_less_iff)
  from floor_fdiv_60[OF f this] have q: "\<lfloor>fdiv (of_int \<lfloor>c\<rfloor>) 60\<rfloor> = \<lfloor>c\<rfloor> div 60" .
  from f have "0 \<le> \<lfloor>c\<rfloor> div 60" by (simp add: pos_imp_zdiv_nonneg_iff)
  then have m: "int_str (\<lfloor>c\<rfloor> div 60) = nat_str (nat (\<lfloor>c\<rfloor> div 60))"
    by (rule int_str_nonneg)
  have r: "js_rem \<lfloor>c\<rfloor> 60 = \<lfloor>c\<rfloor> mod 60"
    using f by (rule js_rem_nonneg)
  have "0 \<le> \<lfloor>c\<rfloor> mod 60" by simp
  then have s: "int_str (\<lfloor>c\<rfloor> mod 60) = nat_str (nat (\<lfloor>c\<rfloor> mod 60))"
    by (rule int_str_nonneg)
  have "nat (\<lfloor>c\<rfloor> mod 60) < 60" by simp
  then have p: "padStart 2 (CHR ''0'') (nat_str (nat (\<lfloor>c\<rfloor> mod 60)))
      = [digit_char (nat (\<lfloor>c\<rfloor> mod 60) div 10), digit_char (nat (\<lfloor>c\<rfloor> mod 60) mod 10)]"
    by (rule padStart_seconds)
  show ?thesis
    unfolding formatTimestamp_def Let_def q r m s p by simp
qed

lemma calculateTimestamps_from_length:
  "length (calculateTimestamps_from c ss) = length ss"
  by (induction ss arbitrary: c) auto

text \<open>The running total at scene \<open>i\<close> is the left-to-right sum, in doubles, of the
  durations before it.\<close>

lemma calculateTimestamps_from_nth:
  "i < length ss \<Longrightarrow> calculateTimestamps_from c ss ! i =
     (ss ! i)\<lparr>timestamp := formatTimestamp (foldl fadd c (map duration (take i ss)))\<rparr>"
proof (induction ss arbitrary: c i)
  case Nil
  then show ?case by simp
next
  case (Cons s ss)
  show ?case
  proof (cases i)
    case 0
    then show ?thesis by simp
  next
    case (Suc j)
    with Cons.prems have "j < length ss" by simp
    from Cons.IH[OF this, of "fadd c (duration s)"] Suc show ?thesis by simp
  qed
qed

lemma calculateTimestamps_from_durations:
  "map duration (calculateTimestamps_from c ss) = map duration ss"
  by (induction ss arbitrary: c) auto

lemma calculateTimestamps_from_idem:
  "calculateTimestamps_from c (calculateTimestamps_from c ss) = calculateTimestamps_from c ss"
  by (induction ss arbitrary: c) auto

lemma calculateTimestamps_from_others:
  "map (\<lambda>s. s\<lparr>timestamp := x\<rparr>) (calculateTimestamps_from c ss) = map (\<lambda>s. s\<lparr>timestamp := x\<rparr>) ss"
  by (induction ss arbitrary: c) auto

lemma calculateTimestamps_durations:
  "map duration (calculateTimestamps ss) = map duration ss"
  by (simp add: calculateTimestamps_def calculateTimestamps_from_durations)

lemma getTotalDuration_foldl: "getTotalDuration ss = foldl fadd 0 (map duration ss)"
  by (simp add: getTotalDuration_def foldl_map)

lemma length_padStart: "n \<le> length (padStart n c s)"
  by (simp add: padStart_def)

lemma sum_list_dyadic:
  "sum_list (map (\<lambda>n. of_nat n / 2 ^ k) ns) = (of_nat (sum_list ns) / 2 ^ k :: rat)"
  by (induction ns) (simp_all add: add_divide_distrib)

lemma sum_list_take_le: "sum_list (take i ns) \<le> sum_list ns" for ns :: "nat list"
proof -
  have "sum_list ns = sum_list (take i ns @ drop i ns)" by simp
  also have "\<dots> = sum_list (take i ns) + sum_list (drop i ns)" by (simp only: sum_list_append)
  finally show ?thesis by simp
qed

text \<open>When the durations are multiples of \<open>1/2^k\<close> seconds (whole seconds for \<open>k = 0\<close>,
  halves for \<open>k = 1\<close>) and add up to less than \<open>2^53 / 2^k\<close> seconds, no addition of the
  running total rounds.\<close>

lemma running_total_exact:
  assumes "map duration ss = map (\<lambda>n. of_nat n / 2 ^ k) ns" "sum_list ns < 2 ^ 53"
  shows "foldl fadd 0 (map duration (take i ss)) = sum_list (map duration (take i ss))"
proof -
  have t: "map duration (take i ss) = map (\<lambda>n. of_nat n / 2 ^ k) (take i ns)"
    using assms(1) by (simp add: take_map flip: take_map)
  from sum_list_take_le[of i ns] assms(2) have "0 + sum_list (take i ns) < 2 ^ 53" by simp
  from foldl_fadd_dyadic[OF this, of k] show ?thesis
    by (simp add: t sum_list_dyadic)
qed

text \<open>
  Claim C6. For every scene sequence, the Timestamp Calculator returns a sequence of
  the same length in which scene \<open>i\<close> is the \<open>i\<close>-th input scene with its timestamp
  set to the formatted sum of the durations of the scenes before it. The sum is the
  one the program computes: the durations are added from left to right, each addition
  rounded to a double; when the durations are whole seconds, or multiples of \<open>1/2^k\<close>
  seconds, that add up to less than \<open>2^53 / 2^k\<close>, it is the exact sum. A time is
  formatted from its floor (fractions are cut, not rounded) as the minutes, a colon
  and the seconds padded with zeros to two characters; from 0 on and below \<open>2^53\<close>
  these are the digits of the floor divided by 60 and the two digits of its remainder.
  Applying the calculator twice gives what applying it once gives.
\<close>

theorem calculateTimestamps_spec:
  "length (calculateTimestamps ss) = length ss
   \<and> (\<forall>i. i < length ss \<longrightarrow>
          calculateTimestamps ss ! i
            = (ss ! i)\<lparr>timestamp := formatTimestamp (foldl fadd 0 (map duration (take i ss)))\<rparr>)
   \<and> (\<forall>ns k i. map duration ss = map (\<lambda>n. of_nat n / 2 ^ k) ns \<and> sum_list ns < 2 ^ 53
          \<longrightarrow> foldl fadd 0 (map duration (take i ss)) = sum_list (map duration (take i ss)))
   \<and> (\<forall>c. formatTimestamp c
            = int_str \<lfloor>fdiv (of_int \<lfloor>c\<rfloor>) 60\<rfloor> @ '':''
              @ padStart 2 (CHR ''0'') (int_str (js_rem \<lfloor>c\<rfloor> 60))
          \<and> 2 \<le> length (padStart 2 (CHR ''0'') (int_str (js_rem \<lfloor>c\<rfloor> 60))))
   \<and> (\<forall>c. 0 \<le> c \<and> c < 2 ^ 53 \<longrightarrow>
          formatTimestamp c
            = nat_str (nat (\<lfloor>c\<rfloor> div 60)) @ '':''
              @ [digit_char (nat (\<lfloor>c\<rfloor> mod 60) div 10), digit_char (nat (\<lfloor>c\<rfloor> mod 60) mod 10)])
   \<and> calculateTimestamps (calculateTimestamps ss) = calculateTimestamps ss"
proof (intro conjI allI impI)
  show "length (calculateTimestamps ss) = length ss"
    by (simp add: calculateTimestamps_def calculateTimestamps_from_length)
next
  fix i assume "i < length ss"
  from calculateTimestamps_from_nth[OF this, of 0]
  show "calculateTimestamps ss ! i
      = (ss ! i)\<lparr>timestamp := formatTimestamp (foldl fadd 0 (map duration (take i ss)))\<rparr>"
    by (simp add: calculateTimestamps_def)
next
  fix ns :: "nat list" and k i :: nat
  assume "map duration ss = map (\<lambda>n. of_nat n / 2 ^ k) ns \<and> sum_list ns < 2 ^ 53"
  then show "foldl fadd 0 (map duration (take i ss)) = sum_list (map duration (take i ss))"
    using running_total_exact[of ss k ns i] by simp
next
  fix c :: number
  show "formatTimestamp c
      = int_str \<lfloor>fdiv (of_int \<lfloor>c\<rfloor>) 60\<rfloor> @ '':''
        @ padStart 2 (CHR ''0'') (int_str (js_rem \<lfloor>c\<rfloor> 60))"
    by (simp add: formatTimestamp_def Let_def)
  show "2 \<le> length (padStart 2 (CHR ''0'') (int_str (js_rem \<lfloor>c\<rfloor> 60)))"
    by (rule length_padStart)
next
  fix c :: number assume "0 \<le> c \<and> c < 2 ^ 53"
  then show "formatTimestamp c
      = nat_str (nat (\<lfloor>c\<rfloor> div 60)) @ '':''
        @ [digit_char (nat (\<lfloor>c\<rfloor> mod 60) div 10), digit_char (nat (\<lfloor>c\<rfloor> mod 60) mod 10)]"
    using formatTimestamp_nonneg[of c] by simp
next
  show "calculateTimestamps (calculateTimestamps ss) = calculateTimestamps ss"
    by (simp add: calculateTimestamps_def calculateTimestamps_from_idem)
qed

text \<open>On scenes of 0.1, 0.2, 0.7 and 1.0 seconds the running total before the fourth
  scene is the double 1.0, and its timestamp is \<open>0:01\<close>. On scenes of 58.5, 4 and 3
  seconds the running total before the third is exactly 62.5.\<close>

theorem calculateTimestamps_spec_witness:
  "calculateTimestamps rounded_scenes ! 3 = example_scene 4 1.0 ''0:01''
   \<and> formatTimestamp 1 = ''0:01''
   \<and> foldl fadd 0 (map duration (take 2 fractional_scenes)) = 125/2
   \<and> calculateTimestamps (calculateTimestamps rounded_scenes) = calculateTimestamps rounded_scenes"
proof -
  note t = calculateTimestamps_spec[of rounded_scenes]
  note u = calculateTimestamps_spec[of fractional_scenes]
  have len: "3 < length rounded_scenes" by (simp add: rounded_scenes_def)
  have total: "foldl fadd 0 (map duration (take 3 rounded_scenes)) = 1"
    by code_simp
  have nth: "rounded_scenes ! 3 = example_scene 4 1.0 ''0:00''"
    by (simp add: rounded_scenes_def)
  have fmt: "nat_str (nat (\<lfloor>1 :: number\<rfloor> div 60)) @ '':''
       @ [digit_char (nat (\<lfloor>1 :: number\<rfloor> mod 60) div 10),
          digit_char (nat (\<lfloor>1 :: number\<rfloor> mod 60) mod 10)] = ''0:01''"
    by code_simp
  have c: "(0 :: number) \<le> 1 \<and> (1 :: number) < 2 ^ 53" by simp
  from t c have "formatTimestamp 1
      = nat_str (nat (\<lfloor>1 :: number\<rfloor> div 60)) @ '':''
       @ [digit_char (nat (\<lfloor>1 :: number\<rfloor> mod 60) div 10),
          digit_char (nat (\<lfloor>1 :: number\<rfloor> mod 60) mod 10)]"
    by blast
  with fmt have f: "formatTimestamp 1 = ''0:01''" by simp
  from t len have "calculateTimestamps rounded_scenes ! 3
      = (rounded_scenes ! 3)\<lparr>timestamp :=
           formatTimestamp (foldl fadd 0 (map duration (take 3 rounded_scenes)))\<rparr>"
    by blast
  then have n: "calculateTimestamps rounded_scenes ! 3 = example_scene 4 1.0 ''0:01''"
    unfolding total nth f by (simp add: example_scene_def)
  have d: "map duration fractional_scenes = map (\<lambda>n. of_nat n / 2 ^ 1) [117, 8, 6]
       \<and> sum_list [117, 8, 6 :: nat] < 2 ^ 53"
    by (simp add: fractional_scenes_def example_scene_def)
  from u d have "foldl fadd 0 (map duration (take 2 fractional_scenes))
      = sum_list (map duration (take 2 fractional_scenes))"
    by blast
  then have e: "foldl fadd 0 (map duration (take 2 fractional_scenes)) = 125/2"
    by (simp add: fractional_scenes_def example_scene_def)
  from t have "calculateTimestamps (calculateTimestamps rounded_scenes)
       = calculateTimestamps rounded_scenes" by blast
  with n f e show ?thesis by simp
qed

text \<open>The running total is not the exact sum of the durations. The doubles of 0.1, 0.2
  and 0.7 add up to less than 1 exactly, and to the double 1.0 in the program, so the
  fourth scene is stamped \<open>0:01\<close>. Ten times the double of 0.1 is more than 1 exactly,
  and the double 0.9999999999999999 in the program, so the eleventh scene is stamped
  \<open>0:00\<close>.\<close>

lemma running_total_is_rounded:
  "sum_list (map duration (take 3 rounded_scenes)) < 1
   \<and> timestamp (calculateTimestamps rounded_scenes ! 3) = ''0:01''
   \<and> 1 < sum_list (map duration (take 10 tenth_scenes))
   \<and> foldl fadd 0 (map duration (take 10 tenth_scenes)) = 1 - 1 / 2 ^ 53
   \<and> timestamp (calculateTimestamps tenth_scenes ! 10) = ''0:00''"
  by code_simp

section \<open>Validator and auto-fix\<close>

lemma validateScene_sceneId: "d \<in> set (validateScene s) \<Longrightarrow> sceneId d = Some (scene_id s)"
  by (auto simp: validateScene_def split: if_splits)

lemma timestampWarnings_sceneId: "d \<in> set (timestampWarnings c ss) \<Longrightarrow> sceneId d \<noteq> None"
  by (induction ss arbitrary: c) (auto simp: Let_def split: if_splits)

lemma duration_mismatch_append:
  "duration_mismatch (xs @ ys) = duration_mismatch xs @ duration_mismatch ys"
  by (simp add: duration_mismatch_def)

lemma duration_mismatch_scene_rules:
  "duration_mismatch (concat (map validateScene ss)) = []"
  by (auto simp: duration_mismatch_def filter_empty_conv dest: validateScene_sceneId)

lemma duration_mismatch_timestamps: "duration_mismatch (timestampWarnings c ss) = []"
  by (auto simp: duration_mismatch_def filter_empty_conv dest: timestampWarnings_sceneId)

text \<open>Only rule 5 gives duration-mismatch warnings: one, when the total differs from
  a positive target.\<close>

lemma duration_mismatch_project:
  assumes "ss \<noteq> []" "0 < pd"
  shows "duration_mismatch (validateProject ss (Some pd)) =
     (if getTotalDuration ss \<noteq> pd then
        [\<lparr>type = WARNING, sceneId = None, field = ''duration'',
          message = ''Total duration ('' @ Number_toString (getTotalDuration ss)
                    @ ''s) doesn't match project duration ('' @ Number_toString pd @ ''s)'',
          suggestion = ''Adjust scene durations to ''
             @ (if fsub pd (getTotalDuration ss) > 0
                then ''add '' @ Number_toString (fsub pd (getTotalDuration ss)) @ ''s''
                else ''remove '' @ Number_toString \<bar>fsub pd (getTotalDuration ss)\<bar> @ ''s'')
             @ '' total'',
          fixable = True\<rparr>]
      else [])"
  using assms
  by (simp add: validateProject_def Let_def duration_mismatch_append
      duration_mismatch_scene_rules duration_mismatch_timestamps)
     (simp add: duration_mismatch_def)

lemma Number_toString_1: "Number_toString 1 = ''1''"
  by code_simp

lemma Number_toString_2: "Number_toString 2 = ''2''"
  by code_simp

text \<open>White space is trimmed at both ends, the no-break space U+00A0 and the em space
  U+2003 included, and kept inside.\<close>

lemma trim_examples:
  "trim ''  a street  '' = ''a street''"
  "trim (CHR 0xC2 # CHR 0xA0 # ''a b'' @ CHR 0xE2 # CHR 0x80 # CHR 0x83 # CHR 0x0A # []) = ''a b''"
  "blank (Some (CHR 0x09 # CHR 0xC2 # CHR 0xA0 # CHR 0xEF # CHR 0xBB # CHR 0xBF # []))"
  "\<not> blank (Some ''a'')"
  by code_simp+

text \<open>Numbers print as ECMAScript prints them.\<close>

lemma Number_toString_examples:
  "Number_toString 10 = ''10''"
  "Number_toString (5/2) = ''2.5''"
  "Number_toString (round_double 0.1) = ''0.1''"
  "Number_toString (fadd (round_double 0.1) (round_double 0.2)) = ''0.30000000000000004''"
  "Number_toString (- 29/4) = ''-7.25''"
  "Number_toString (10 ^ 21) = ''1e+21''"
  "Number_toString (round_double (1 / 10 ^ 7)) = ''1e-7''"
  by code_simp+

text \<open>What the store operations do to scenes, history and cursor.\<close>

lemma notify_fields:
  "scenes (notify ks st) = scenes st"
  "history (notify ks st) = history st"
  "historyIndex (notify ks st) = historyIndex st"
  by (simp_all add: notify_def)

lemma autoSave_fields:
  "scenes (autoSave st) = scenes st"
  "history (autoSave st) = history st"
  "historyIndex (autoSave st) = historyIndex st"
  by (simp_all add: autoSave_def Storage_save_def split: option.splits)

lemma pushHistory_fields:
  "scenes (pushHistory snapshot st) = scenes st"
  "history (pushHistory snapshot st) = pushed_history (history st) (historyIndex st) snapshot"
  "historyIndex (pushHistory snapshot st) = pushed_index (history st) (historyIndex st)"
  by (simp_all add: pushHistory_def pushed_history_def pushed_index_def Let_def deepClone_def
      notify_fields)

lemma edit_fields:
  "scenes (set_store (no_updates\<lparr>u_scenes := Some ns\<rparr>) False st) = calculateTimestamps ns"
  "history (set_store (no_updates\<lparr>u_scenes := Some ns\<rparr>) False st)
     = pushed_history (history st) (historyIndex st) (scenes st)"
  "historyIndex (set_store (no_updates\<lparr>u_scenes := Some ns\<rparr>) False st)
     = pushed_index (history st) (historyIndex st)"
  by (simp_all add: set_store_def no_updates_def assign_def Let_def deepClone_def
      pushHistory_fields notify_fields autoSave_fields)

lemma deselect_fields:
  "scenes (set_store (no_updates\<lparr>u_selectedScene := Some None\<rparr>) True st) = scenes st"
  "history (set_store (no_updates\<lparr>u_selectedScene := Some None\<rparr>) True st) = history st"
  "historyIndex (set_store (no_updates\<lparr>u_selectedScene := Some None\<rparr>) True st) = historyIndex st"
  by (simp_all add: set_store_def no_updates_def assign_def Let_def notify_fields)

lemma last_duration_fixed:
  assumes "ss \<noteq> []"
  shows "duration (last (calculateTimestamps
           (map (\<lambda>s. if scene_id s = scene_id (last ss) then spread s [Set_duration d] else s) ss))) = d"
proof -
  let ?m = "map (\<lambda>s. if scene_id s = scene_id (last ss) then spread s [Set_duration d] else s) ss"
  from assms have ne: "?m \<noteq> []" by simp
  have "length (calculateTimestamps ?m) = length ?m"
    by (simp add: calculateTimestamps_def calculateTimestamps_from_length)
  with ne have "calculateTimestamps ?m \<noteq> []" by (metis length_0_conv)
  then have "duration (last (calculateTimestamps ?m)) = last (map duration (calculateTimestamps ?m))"
    by (simp add: last_map)
  also have "\<dots> = last (map duration ?m)" by (simp add: calculateTimestamps_durations)
  also from ne have "\<dots> = duration (last ?m)" by (simp add: last_map)
  also from assms have "\<dots> = d" by (simp add: last_map spread_def)
  finally show ?thesis .
qed

text \<open>The duration auto-fix sets the duration of the last scene to its old duration
  plus the difference to the target, and to 1 when that is less than 1.\<close>

lemma handleFix_duration:
  assumes "scenes st \<noteq> []" "currentProject st = Some p"
    "project_duration p \<noteq> getTotalDuration (scenes st)"
  shows "duration (last (scenes (handleFix ''duration'' None st)))
     = max 1 (fadd (duration (last (scenes st)))
                (fsub (project_duration p) (getTotalDuration (scenes st))))"
proof -
  from assms(3) have "fsub (project_duration p) (getTotalDuration (scenes st)) \<noteq> 0"
    by (simp add: fsub_def round_double_eq_0_iff)
  with assms(1,2) last_duration_fixed[OF assms(1)] show ?thesis
    by (simp add: handleFix_def Let_def updateScene_def edit_fields)
qed

lemma durations_3_4_3:
  "fadd (fadd (fadd 0 3) 4) 3 = 10" "fsub 11 10 = 1" "fsub 12 10 = 2"
  "fadd 3 1 = 4" "fadd 3 2 = 5"
  by code_simp+

text \<open>
  Claim C2, as amended. For every scene sequence with durations 3, 4, 3 (total 10):
  validating against the target duration 10 gives no duration-mismatch warning;
  validating against 11 gives exactly one, fixable, whose suggestion says to add 1s, and
  the auto-fix then sets the last scene's duration to 4; validating against 12 gives
  exactly one whose suggestion says to add 2s, and the auto-fix sets the last scene's
  duration to 5.
\<close>

theorem duration_mismatch_scenario:
  assumes "map duration ss = [3, 4, 3]"
  shows "duration_mismatch (validateProject ss (Some 10)) = []
       \<and> map suggestion (duration_mismatch (validateProject ss (Some 11)))
           = [''Adjust scene durations to add 1s total'']
       \<and> map fixable (duration_mismatch (validateProject ss (Some 11))) = [True]
       \<and> (\<forall>st p. scenes st = ss \<and> currentProject st = Some p \<and> project_duration p = 11
            \<longrightarrow> duration (last (scenes (handleFix ''duration'' None st))) = 4)
       \<and> map suggestion (duration_mismatch (validateProject ss (Some 12)))
           = [''Adjust scene durations to add 2s total'']
       \<and> (\<forall>st p. scenes st = ss \<and> currentProject st = Some p \<and> project_duration p = 12
            \<longrightarrow> duration (last (scenes (handleFix ''duration'' None st))) = 5)"
proof -
  from assms have ne: "ss \<noteq> []" by auto
  from assms have total: "getTotalDuration ss = 10"
    by (simp add: getTotalDuration_foldl durations_3_4_3)
  from assms ne have l: "duration (last ss) = 3"
    by (metis last.simps last_map list.distinct(1) map_is_Nil_conv)
  have a: "duration_mismatch (validateProject ss (Some 10)) = []"
    using duration_mismatch_project[OF ne, of 10] total by simp
  have b: "map suggestion (duration_mismatch (validateProject ss (Some 11)))
           = [''Adjust scene durations to add 1s total'']"
    and b': "map fixable (duration_mismatch (validateProject ss (Some 11))) = [True]"
    using duration_mismatch_project[OF ne, of 11] total
    by (simp_all add: Number_toString_1 durations_3_4_3)
  have c: "map suggestion (duration_mismatch (validateProject ss (Some 12)))
           = [''Adjust scene durations to add 2s total'']"
    using duration_mismatch_project[OF ne, of 12] total
    by (simp add: Number_toString_2 durations_3_4_3)
  have d: "duration (last (scenes (handleFix ''duration'' None st))) = 4"
    if "scenes st = ss \<and> currentProject st = Some p \<and> project_duration p = 11" for st p
    using that handleFix_duration[of st p] ne total l by (simp add: durations_3_4_3)
  have e: "duration (last (scenes (handleFix ''duration'' None st))) = 5"
    if "scenes st = ss \<and> currentProject st = Some p \<and> project_duration p = 12" for st p
    using that handleFix_duration[of st p] ne total l by (simp add: durations_3_4_3)
  from a b b' c d e show ?thesis by blast
qed

theorem duration_mismatch_scenario_witness:
  "duration_mismatch (validateProject example_scenes (Some 10)) = []
   \<and> map suggestion (duration_mismatch (validateProject example_scenes (Some 11)))
       = [''Adjust scene durations to add 1s total'']
   \<and> duration (last (scenes (handleFix ''duration'' None (example_store 11)))) = 4"
proof -
  have d: "map duration example_scenes = [3, 4, 3]"
    by (simp add: example_scenes_def example_scene_def)
  have s: "scenes (example_store 11) = example_scenes
       \<and> currentProject (example_store 11) = Some \<lparr>project_id = ''proj_1'', project_duration = 11\<rparr>
       \<and> project_duration \<lparr>project_id = ''proj_1'', project_duration = 11\<rparr> = 11"
    by code_simp
  from duration_mismatch_scenario[OF d] s show ?thesis by blast
qed

text \<open>The claim as stated fails: the durations 3, 4, 3 add up to 10, so validating
  against 11 does give a duration-mismatch warning.\<close>

theorem duration_mismatch_target_11:
  "duration_mismatch (validateProject example_scenes (Some 11)) \<noteq> []"
  by code_simp

text \<open>
  Claim C3, as amended. The allowed list is the list of the keys of the icon table:
  zoom_in, zoom_out, pan_left, pan_right, fade, static, shake, slow_motion. For every
  scene whose \<open>visual_fx\<close> is one of these eight values the validator gives no
  \<open>visual_fx\<close> diagnostic; for every scene whose \<open>visual_fx\<close> is a non-empty value outside
  this list (pan_up and pan_down among them) it gives exactly one, of severity error,
  for that scene, flagged fixable.
\<close>

theorem visual_fx_rule:
  "ALLOWED_VFX = [''zoom_in'', ''zoom_out'', ''pan_left'', ''pan_right'', ''fade'', ''static'',
                  ''shake'', ''slow_motion'']
   \<and> (\<forall>s v. visual_fx s = Some v \<and> v \<in> set ALLOWED_VFX
         \<longrightarrow> visual_fx_diagnostics (validateScene s) = [])
   \<and> (\<forall>s v. visual_fx s = Some v \<and> v \<noteq> [] \<and> v \<notin> set ALLOWED_VFX
         \<longrightarrow> (\<exists>d. visual_fx_diagnostics (validateScene s) = [d]
                \<and> type d = ERROR \<and> sceneId d = Some (scene_id s)
                \<and> field d = ''visual_fx'' \<and> fixable d))"
  by (auto simp: ALLOWED_VFX_def VFX_ICONS_keys_def visual_fx_diagnostics_def validateScene_def
        truthy_def String_of_def)

theorem visual_fx_rule_witness:
  "visual_fx_diagnostics
     (validateScene (example_scene 1 3 ''0:00''\<lparr>visual_fx := Some ''slow_motion''\<rparr>)) = []
   \<and> map fixable (visual_fx_diagnostics
         (validateScene (example_scene 1 3 ''0:00''\<lparr>visual_fx := Some ''pan_down''\<rparr>))) = [True]"
proof -
  let ?a = "example_scene 1 3 ''0:00''\<lparr>visual_fx := Some ''slow_motion''\<rparr>"
  let ?b = "example_scene 1 3 ''0:00''\<lparr>visual_fx := Some ''pan_down''\<rparr>"
  have ha: "visual_fx ?a = Some ''slow_motion'' \<and> ''slow_motion'' \<in> set ALLOWED_VFX"
    by (simp add: ALLOWED_VFX_def VFX_ICONS_keys_def)
  have hb: "visual_fx ?b = Some ''pan_down'' \<and> ''pan_down'' \<noteq> [] \<and> ''pan_down'' \<notin> set ALLOWED_VFX"
    by (simp add: ALLOWED_VFX_def VFX_ICONS_keys_def)
  from visual_fx_rule ha have a: "visual_fx_diagnostics (validateScene ?a) = []" by blast
  from visual_fx_rule hb obtain d where "visual_fx_diagnostics (validateScene ?b) = [d]" "fixable d"
    by blast
  then have b: "map fixable (visual_fx_diagnostics (validateScene ?b)) = [True]" by simp
  from a b show ?thesis by simp
qed

text \<open>The claim as stated fails: \<open>pan_up\<close> is one of the nine values it lists, and a
  scene with this effect gets a \<open>visual_fx\<close> diagnostic.\<close>

theorem pan_up_rejected:
  "visual_fx_diagnostics
     (validateScene (example_scene 1 3 ''0:00''\<lparr>visual_fx := Some ''pan_up''\<rparr>)) \<noteq> []"
  by code_simp

section \<open>State store: history\<close>

lemma apply_edit_history:
  "history (snd (apply_edit e st)) = pushed_history (history st) (historyIndex st) (scenes st)"
  "historyIndex (snd (apply_edit e st)) = pushed_index (history st) (historyIndex st)"
  by (cases e; simp add: updateScene_def addScene_def removeScene_def Let_def edit_fields
        deselect_fields split: option.splits)+

lemma slice0_cursor:
  assumes "0 \<le> i + 1" "i < int (length h) - 1"
  shows "slice0 h (i + 1) = take (nat (i + 1)) h"
proof -
  from assms have "\<not> i + 1 < 0" and "min (i + 1) (int (length h)) = i + 1" by simp_all
  then show ?thesis by (simp add: slice0_def Let_def)
qed

lemma length_slice0_cursor:
  assumes "0 \<le> i + 1" "i < int (length h) - 1"
  shows "length (slice0 h (i + 1)) = nat (i + 1)"
  using assms by (simp add: slice0_cursor)

lemma pushed_ok:
  assumes "length h \<le> MAX_HISTORY"
    and "if h = [] then i = - 1 else 0 \<le> i \<and> i < int (length h)"
  shows "length (pushed_history h i snapshot) \<le> MAX_HISTORY
       \<and> pushed_history h i snapshot \<noteq> []
       \<and> 0 \<le> pushed_index h i
       \<and> pushed_index h i < int (length (pushed_history h i snapshot))"
proof (cases "i < int (length h) - 1")
  case True
  with assms have i: "0 \<le> i + 1" by (auto split: if_splits)
  note s = slice0_cursor[OF i True] length_slice0_cursor[OF i True]
  from True assms s show ?thesis
    by (auto simp: pushed_history_def pushed_index_def Let_def MAX_HISTORY_def split: if_splits)
next
  case False
  with assms have e: "i = int (length h) - 1" by (auto split: if_splits)
  from False assms e show ?thesis
    by (auto simp: pushed_history_def pushed_index_def Let_def MAX_HISTORY_def split: if_splits)
qed

lemma pushed_cursor:
  assumes "- 1 \<le> i" "i < int (length h) - 1"
  shows "pushed_history h i snapshot
           = (if nat (i + 1) < MAX_HISTORY then take (nat (i + 1)) h @ [snapshot]
              else tl (take (nat (i + 1)) h @ [snapshot]))
       \<and> pushed_index h i = int (length (pushed_history h i snapshot)) - 1"
proof -
  from assms have i: "0 \<le> i + 1" by simp
  note s = slice0_cursor[OF i assms(2)] length_slice0_cursor[OF i assms(2)]
  from assms s show ?thesis
    by (auto simp: pushed_history_def pushed_index_def Let_def MAX_HISTORY_def)
qed

lemma tl_snoc_last: "xs \<noteq> [] \<Longrightarrow> last (tl (xs @ [a])) = a \<and> tl (xs @ [a]) \<noteq> []"
  by (cases xs) simp_all

lemma last_pushed:
  "last (pushed_history h i snapshot) = snapshot \<and> pushed_history h i snapshot \<noteq> []"
proof -
  define h1 where "h1 = (if i < int (length h) - 1 then slice0 h (i + 1) else h)"
  show ?thesis
  proof (cases "length (h1 @ [snapshot]) > MAX_HISTORY")
    case True
    then have "h1 \<noteq> []" by (auto simp: MAX_HISTORY_def)
    from tl_snoc_last[OF this, of snapshot] True show ?thesis
      by (simp add: pushed_history_def Let_def h1_def)
  next
    case False
    then show ?thesis by (simp add: pushed_history_def Let_def h1_def)
  qed
qed





lemma element_at_Some:
  "0 \<le> i \<Longrightarrow> i < int (length xs) \<Longrightarrow> element_at xs i = Some (xs ! nat i)"
  by (simp add: element_at_def)

lemma load_snapshot_fields:
  assumes "element_at (history st) (historyIndex st) = Some snapshot"
  shows "fst (load_snapshot ks st) = Boolean True"
    and "history (snd (load_snapshot ks st)) = history st"
    and "historyIndex (snd (load_snapshot ks st)) = historyIndex st"
    and "scenes (snd (load_snapshot ks st)) = calculateTimestamps snapshot"
  using assms
  by (simp_all add: load_snapshot_def Let_def set_store_def no_updates_def assign_def
      deepClone_def notify_fields autoSave_fields)

text \<open>The store of the constructor satisfies the history invariant, \<open>setScenes\<close>
  establishes it, and \<open>undo\<close> and \<open>redo\<close> keep it.\<close>

lemma constructor_ok: "history_ok constructor"
  by (simp add: history_ok_def constructor_def MAX_HISTORY_def)

lemma setScenes_ok: "history_ok (snd (setScenes ss skipLocalStorage st))"
  by (simp add: setScenes_def Let_def history_ok_def MAX_HISTORY_def set_store_def
      no_updates_def assign_def notify_fields autoSave_fields)

lemma undo_ok:
  assumes "history_ok st"
  shows "history_ok (snd (undo st))"
proof (cases "0 < historyIndex st")
  case True
  let ?u = "st\<lparr>historyIndex := historyIndex st - 1\<rparr>"
  from assms True have "0 \<le> historyIndex ?u" and "historyIndex ?u < int (length (history ?u))"
    by (auto simp: history_ok_def split: if_splits)
  then have "element_at (history ?u) (historyIndex ?u) = Some (history ?u ! nat (historyIndex ?u))"
    by (rule element_at_Some)
  from load_snapshot_fields(2,3)[OF this] assms True show ?thesis
    by (auto simp: undo_def history_ok_def split: if_splits)
next
  case False
  with assms show ?thesis by (simp add: undo_def)
qed

lemma redo_ok:
  assumes "history_ok st"
  shows "history_ok (snd (redo st))"
proof (cases "historyIndex st < int (length (history st)) - 1")
  case True
  let ?u = "st\<lparr>historyIndex := historyIndex st + 1\<rparr>"
  from assms True have "0 \<le> historyIndex ?u" and "historyIndex ?u < int (length (history ?u))"
    by (auto simp: history_ok_def split: if_splits)
  then have "element_at (history ?u) (historyIndex ?u) = Some (history ?u ! nat (historyIndex ?u))"
    by (rule element_at_Some)
  from load_snapshot_fields(2,3)[OF this] assms True show ?thesis
    by (auto simp: redo_def history_ok_def split: if_splits)
next
  case False
  with assms show ?thesis by (simp add: redo_def)
qed

lemma jumpToHistory_ok:
  assumes "history_ok st"
  shows "history_ok (snd (jumpToHistory index st))"
proof (cases "index \<ge> 0 \<and> index < int (length (history st))")
  case True
  let ?u = "st\<lparr>historyIndex := index\<rparr>"
  from True have "0 \<le> historyIndex ?u" and "historyIndex ?u < int (length (history ?u))"
    by simp_all
  then have "element_at (history ?u) (historyIndex ?u) = Some (history ?u ! nat (historyIndex ?u))"
    by (rule element_at_Some)
  from load_snapshot_fields(2,3)[OF this] assms True show ?thesis
    by (auto simp: jumpToHistory_def history_ok_def split: if_splits)
next
  case False
  with assms show ?thesis by (auto simp: jumpToHistory_def)
qed

lemma deleteHistoryAt_ok:
  assumes "history_ok st"
  shows "history_ok (snd (deleteHistoryAt index st))"
proof (cases "index \<le> 0 \<or> index \<ge> int (length (history st))")
  case True
  with assms show ?thesis by (auto simp: deleteHistoryAt_def)
next
  case False
  define h where "h = take (nat index) (history st) @ drop (nat index + 1) (history st)"
  define i where "i = (if historyIndex st \<ge> index then max 0 (historyIndex st - 1)
                       else historyIndex st)"
  let ?u = "st\<lparr>history := h, historyIndex := i\<rparr>"
  from False have n: "nat index < length (history st)" by linarith
  then have "length h = length (history st) - 1" by (simp add: h_def)
  with n have len: "int (length h) = int (length (history st)) - 1" by linarith
  from False assms have c: "0 \<le> historyIndex st" "historyIndex st < int (length (history st))"
    "length (history st) \<le> MAX_HISTORY"
    by (auto simp: history_ok_def split: if_splits)
  from False c len have r: "0 \<le> i" "i < int (length h)" by (auto simp: i_def)
  then have "element_at (history ?u) (historyIndex ?u) = Some (history ?u ! nat (historyIndex ?u))"
    by (simp add: element_at_Some)
  note l = load_snapshot_fields(2,3)[OF this, of "[''history'', ''historyIndex'']"]
  from False have d: "deleteHistoryAt index st = load_snapshot [''history'', ''historyIndex''] ?u"
    by (auto simp: deleteHistoryAt_def Let_def h_def i_def)
  from r c len l show ?thesis
    by (auto simp: d history_ok_def split: if_splits)
qed

lemma clearHistory_ok: "history_ok (snd (clearHistory st))"
  by (simp add: clearHistory_def Let_def history_ok_def MAX_HISTORY_def notify_fields)

lemma selectProject_ok: "history_ok (snd (selectProject p st))"
  by (cases p)
     (simp_all add: selectProject_def Let_def history_ok_def set_store_def no_updates_def
        assign_def notify_fields autoSave_fields calculateTimestamps_def)

text \<open>What \<open>undo()\<close> followed by \<open>redo()\<close> loads: the snapshot at the cursor, with its
  timestamps recalculated. After an edit this snapshot is the sequence before the
  edit, since \<open>_pushHistory\<close> is given the scenes of \<open>prevState\<close>.\<close>

lemma undo_then_redo:
  assumes pos: "0 < historyIndex st" and r: "historyIndex st < int (length (history st))"
  shows "fst (undo st) = Boolean True
       \<and> fst (redo (snd (undo st))) = Boolean True
       \<and> scenes (snd (redo (snd (undo st))))
           = calculateTimestamps (history st ! nat (historyIndex st))
       \<and> history (snd (redo (snd (undo st)))) = history st
       \<and> historyIndex (snd (redo (snd (undo st)))) = historyIndex st"
proof -
  let ?u = "st\<lparr>historyIndex := historyIndex st - 1\<rparr>"
  from pos have undo_eq: "undo st = load_snapshot [''historyIndex''] ?u" by (simp add: undo_def)
  from pos r have "0 \<le> historyIndex ?u" and "historyIndex ?u < int (length (history ?u))"
    by simp_all
  then have "element_at (history ?u) (historyIndex ?u) = Some (history ?u ! nat (historyIndex ?u))"
    by (rule element_at_Some)
  note lu = load_snapshot_fields[OF this]
  let ?v = "snd (undo st)"
  from lu have u1: "fst (undo st) = Boolean True"
    and hv: "history ?v = history st" and iv: "historyIndex ?v = historyIndex st - 1"
    by (simp_all add: undo_eq)
  let ?w = "?v\<lparr>historyIndex := historyIndex ?v + 1\<rparr>"
  from hv iv r have "historyIndex ?v < int (length (history ?v)) - 1" by simp
  then have redo_eq: "redo ?v = load_snapshot [''historyIndex''] ?w" by (simp add: redo_def)
  from hv iv pos r have "0 \<le> historyIndex ?w" and "historyIndex ?w < int (length (history ?w))"
    by simp_all
  then have "element_at (history ?w) (historyIndex ?w) = Some (history ?w ! nat (historyIndex ?w))"
    by (rule element_at_Some)
  note lw = load_snapshot_fields[OF this]
  from lw hv iv have "fst (redo ?v) = Boolean True"
    and "scenes (snd (redo ?v)) = calculateTimestamps (history st ! nat (historyIndex st))"
    and "history (snd (redo ?v)) = history st"
    and "historyIndex (snd (redo ?v)) = historyIndex st"
    by (simp_all add: redo_eq)
  with u1 show ?thesis by simp
qed

text \<open>
  Claim C1. For every store whose history is non-empty and whose cursor is not at the
  floor, \<open>undo()\<close> followed by \<open>redo()\<close> restores the scene sequence that was present
  before the \<open>undo()\<close>. The code does not do this after an edit: the scenes are loaded
  into a store with an open project, the duration of scene 1 is changed from 3 to 5,
  and \<open>undo()\<close> and \<open>redo()\<close> both succeed; the history is not empty and the cursor is 1;
  the durations before the \<open>undo()\<close> are 5, 4, 3 and after the \<open>redo()\<close> they are 3, 4, 3.
\<close>

theorem undo_redo_loses_edit:
  "history edited_store = [example_scenes, example_scenes]
   \<and> historyIndex edited_store = 1
   \<and> fst (undo edited_store) = Boolean True
   \<and> fst (redo (snd (undo edited_store))) = Boolean True
   \<and> map duration (scenes edited_store) = [5, 4, 3]
   \<and> map duration (scenes (snd (redo (snd (undo edited_store))))) = [3, 4, 3]"
  by code_simp

text \<open>After a second edit (scene 2 from 4 to 6 seconds) a single \<open>undo()\<close> goes back
  two states: it loads the durations 3, 4, 3, not the 5, 4, 3 that the second edit
  started from.\<close>

lemma undo_skips_a_state:
  "map duration (scenes (snd (updateScene 2 [Set_duration 6] edited_store))) = [5, 6, 3]
   \<and> map duration (scenes (snd (undo (snd (updateScene 2 [Set_duration 6] edited_store)))))
       = [3, 4, 3]"
  by code_simp




lemma commit_ok:
  assumes "history_ok st"
  shows "history_ok (commit ns st)"
proof -
  from assms have a: "length (history st) \<le> MAX_HISTORY"
    and b: "if history st = [] then historyIndex st = - 1
            else 0 \<le> historyIndex st \<and> historyIndex st < int (length (history st))"
    by (simp_all add: history_ok_def)
  from pushed_ok[OF a b, of "scenes st"] show ?thesis
    by (simp add: history_ok_def commit_def edit_fields)
qed

text \<open>
  Claim C5. Whenever an edit is committed (\<open>updateScene\<close>, \<open>addScene\<close>,
  \<open>removeScene\<close>, or any other call of \<open>set({ scenes })\<close> that pushes history) while
  \<open>historyIndex < history.length - 1\<close> (the cursor being \<open>-1\<close> or a position), the
  history entries after the cursor are discarded and the sequence before the edit is
  appended (and the oldest entry is evicted if that makes more than 20); the cursor is
  then at the tail, and \<open>redo()\<close> returns false and leaves the store as it is. When the
  cursor is above 0, \<open>undo()\<close> succeeds, and after it \<open>redo()\<close> succeeds.
\<close>

theorem edit_discards_redo:
  assumes lo: "- 1 \<le> historyIndex st"
    and cur: "historyIndex st < int (length (history st)) - 1"
    and edit: "st' = commit ns st \<or> st' = snd (apply_edit e st)"
  shows "history st'
           = (if nat (historyIndex st + 1) < MAX_HISTORY
              then take (nat (historyIndex st + 1)) (history st) @ [scenes st]
              else tl (take (nat (historyIndex st + 1)) (history st) @ [scenes st]))
       \<and> historyIndex st' = int (length (history st')) - 1
       \<and> redo st' = (Boolean False, st')
       \<and> (0 < historyIndex st'
            \<longrightarrow> fst (undo st') = Boolean True \<and> fst (redo (snd (undo st'))) = Boolean True)"
proof -
  note p = pushed_cursor[OF lo cur, of "scenes st"]
  from edit have eq: "history st' = pushed_history (history st) (historyIndex st) (scenes st)"
    "historyIndex st' = pushed_index (history st) (historyIndex st)"
    by (auto simp: apply_edit_history commit_def edit_fields)
  from p have h: "history st'
           = (if nat (historyIndex st + 1) < MAX_HISTORY
              then take (nat (historyIndex st + 1)) (history st) @ [scenes st]
              else tl (take (nat (historyIndex st + 1)) (history st) @ [scenes st]))"
    and tail: "historyIndex st' = int (length (history st')) - 1"
    unfolding eq by simp_all
  from tail have r: "redo st' = (Boolean False, st')" by (simp add: redo_def)
  have u: "fst (undo st') = Boolean True \<and> fst (redo (snd (undo st'))) = Boolean True"
    if pos: "0 < historyIndex st'"
  proof -
    from tail have "historyIndex st' < int (length (history st'))" by simp
    from undo_then_redo[OF pos this] show ?thesis by simp
  qed
  from h tail r u show ?thesis by blast
qed

text \<open>After the edit above is undone, the history has two entries and the cursor is 0;
  adding a scene then leaves two entries, and \<open>redo()\<close> returns false.\<close>

theorem edit_discards_redo_witness:
  "history (snd (apply_edit (AddScene (example_scene 4 2 ''0:00'')) (snd (undo edited_store))))
     = [example_scenes, example_scenes]
   \<and> redo (snd (apply_edit (AddScene (example_scene 4 2 ''0:00'')) (snd (undo edited_store))))
     = (Boolean False,
        snd (apply_edit (AddScene (example_scene 4 2 ''0:00'')) (snd (undo edited_store))))
   \<and> fst (undo (snd (apply_edit (AddScene (example_scene 4 2 ''0:00''))
                     (snd (undo edited_store))))) = Boolean True"
proof -
  let ?st = "snd (undo edited_store)"
  let ?e = "AddScene (example_scene 4 2 ''0:00'')"
  have lo: "- 1 \<le> historyIndex ?st" by code_simp
  have cur: "historyIndex ?st < int (length (history ?st)) - 1" by code_simp
  have c: "nat (historyIndex ?st + 1) < MAX_HISTORY" by code_simp
  have h: "take (nat (historyIndex ?st + 1)) (history ?st) @ [scenes ?st]
      = [example_scenes, example_scenes]" by code_simp
  have e: "snd (apply_edit ?e ?st) = commit [] ?st \<or> snd (apply_edit ?e ?st) = snd (apply_edit ?e ?st)"
    by simp
  note t = edit_discards_redo[OF lo cur e]
  from t c h have a: "history (snd (apply_edit ?e ?st)) = [example_scenes, example_scenes]"
    by simp
  from t have b: "redo (snd (apply_edit ?e ?st)) = (Boolean False, snd (apply_edit ?e ?st))"
    by blast
  from t a have "0 < historyIndex (snd (apply_edit ?e ?st))" by simp
  with t have "fst (undo (snd (apply_edit ?e ?st))) = Boolean True" by blast
  with a b show ?thesis by simp
qed

lemma map_absent:
  "\<forall>s \<in> set ss. scene_id s \<noteq> sid
     \<Longrightarrow> map (\<lambda>s. if scene_id s = sid then spread s patch else s) ss = ss"
  by (induction ss) simp_all

text \<open>
  Claim C7, as amended. For every store state and every id that matches no scene's
  \<open>scene_id\<close>, \<open>updateScene(id, patch)\<close> does not throw and returns \<open>undefined\<close> (no
  success flag). The scene sequence it leaves is the old one with the timestamps
  recalculated: all other fields are unchanged, and the sequence is unchanged when the
  stored timestamps were the calculated ones. The call is not a no-op on the store: the
  sequence before the call is pushed onto the history.
\<close>

theorem updateScene_absent:
  assumes "\<forall>s \<in> set (scenes st). scene_id s \<noteq> sid"
  shows "fst (updateScene sid patch st) = Undefined
       \<and> scenes (snd (updateScene sid patch st)) = calculateTimestamps (scenes st)
       \<and> map (\<lambda>s. s\<lparr>timestamp := []\<rparr>) (scenes (snd (updateScene sid patch st)))
           = map (\<lambda>s. s\<lparr>timestamp := []\<rparr>) (scenes st)
       \<and> (calculateTimestamps (scenes st) = scenes st
            \<longrightarrow> scenes (snd (updateScene sid patch st)) = scenes st)
       \<and> history (snd (updateScene sid patch st)) \<noteq> []
       \<and> last (history (snd (updateScene sid patch st))) = scenes st"
  using map_absent[OF assms, of patch] last_pushed[of "history st" "historyIndex st" "scenes st"]
  by (simp add: updateScene_def Let_def edit_fields calculateTimestamps_def
      calculateTimestamps_from_others)

theorem updateScene_absent_witness:
  "fst (updateScene 99 [Set_duration 5] (example_store 10)) = Undefined
   \<and> scenes (snd (updateScene 99 [Set_duration 5] (example_store 10))) = example_scenes
   \<and> last (history (snd (updateScene 99 [Set_duration 5] (example_store 10)))) = example_scenes"
proof -
  have a: "\<forall>s \<in> set (scenes (example_store 10)). scene_id s \<noteq> 99" by code_simp
  have s: "scenes (example_store 10) = example_scenes" by code_simp
  have c: "calculateTimestamps example_scenes = example_scenes" by code_simp
  from updateScene_absent[OF a, of "[Set_duration 5]"] show ?thesis unfolding s c by simp
qed

text \<open>The claim as stated fails: on a store whose scenes have no id 99,
  \<open>updateScene(99, patch)\<close> returns \<open>undefined\<close>, not a boolean, and the history grows
  from one entry to two; and on a store with a stale timestamp the scene sequence
  itself changes.\<close>

theorem updateScene_absent_not_noop:
  "fst (updateScene 99 [Set_duration 5] (example_store 10)) = Undefined
   \<and> length (history (example_store 10)) = 1
   \<and> length (history (snd (updateScene 99 [Set_duration 5] (example_store 10)))) = 2
   \<and> map timestamp (scenes stale_store) = [''9:99'']
   \<and> map timestamp (scenes (snd (updateScene 99 [Set_duration 5] stale_store))) = [''0:00'']"
  by code_simp

section \<open>Canvas preview engine: scene lookup, zoom and end of playback\<close>

text \<open>The loop of \<open>getCurrentScene\<close>: with positive durations the running total does
  not decrease, so the first scene whose interval holds the time is scene \<open>k\<close> when the
  time is at or after the running total before scene \<open>k\<close> and before the next one.\<close>

lemma getCurrentScene_from_hit:
  assumes "\<forall>s \<in> set ss. 0 < ps_duration s" "is_double acc" "k < length ss"
    "foldl fadd acc (map ps_duration (take k ss)) \<le> t"
    "t < fadd (foldl fadd acc (map ps_duration (take k ss))) (ps_duration (ss ! k))"
  shows "getCurrentScene_from acc t ss =
     Some \<lparr>scene = ss ! k,
           localTime = fsub t (foldl fadd acc (map ps_duration (take k ss))),
           progress = fdiv (fsub t (foldl fadd acc (map ps_duration (take k ss))))
                        (ps_duration (ss ! k))\<rparr>"
  using assms
proof (induction ss arbitrary: acc k)
  case Nil
  then show ?case by simp
next
  case (Cons s ss)
  show ?case
  proof (cases k)
    case 0
    with Cons.prems show ?thesis by simp
  next
    case (Suc j)
    from Cons.prems(1) have pos: "\<forall>x \<in> set ss. 0 < ps_duration x" by simp
    then have "\<forall>d \<in> set (map ps_duration (take j ss)). 0 < d" by (auto dest: in_set_takeD)
    from foldl_fadd_ge[OF is_double_fadd this]
    have "fadd acc (ps_duration s) \<le> foldl fadd (fadd acc (ps_duration s)) (map ps_duration (take j ss))" .
    with Cons.prems(4) Suc have miss: "\<not> t < fadd acc (ps_duration s)" by simp
    from Cons.prems(3) Suc have j: "j < length ss" by simp
    from Cons.prems(4,5) Suc
    have "foldl fadd (fadd acc (ps_duration s)) (map ps_duration (take j ss)) \<le> t"
      and "t < fadd (foldl fadd (fadd acc (ps_duration s)) (map ps_duration (take j ss)))
                 (ps_duration (ss ! j))"
      by simp_all
    from Cons.IH[OF pos is_double_fadd j this] miss Suc show ?thesis by simp
  qed
qed

lemma getCurrentScene_from_past:
  assumes "\<forall>s \<in> set ss. 0 < ps_duration s" "is_double acc"
    "foldl fadd acc (map ps_duration ss) \<le> t"
  shows "getCurrentScene_from acc t ss = None"
  using assms
proof (induction ss arbitrary: acc)
  case Nil
  then show ?case by simp
next
  case (Cons s ss)
  from Cons.prems(1) have pos: "\<forall>x \<in> set ss. 0 < ps_duration x" by simp
  then have "\<forall>d \<in> set (map ps_duration ss). 0 < d" by simp
  from foldl_fadd_ge[OF is_double_fadd this]
  have "fadd acc (ps_duration s) \<le> foldl fadd (fadd acc (ps_duration s)) (map ps_duration ss)" .
  with Cons.prems(3) have miss: "\<not> t < fadd acc (ps_duration s)" by simp
  from Cons.prems(3) have "foldl fadd (fadd acc (ps_duration s)) (map ps_duration ss) \<le> t"
    by simp
  from Cons.IH[OF pos is_double_fadd this] miss show ?case by simp
qed

lemma preview_total_ge_sum:
  "cumulative_start (pv_scenes pv) (length (pv_scenes pv)) \<le> preview_getTotalDuration pv"
  by (simp add: preview_getTotalDuration_def cumulative_start_def foldl_map)

text \<open>
  Claim C8, as amended. Numbers are doubles, and the engine adds, subtracts and divides
  them with rounding; the start of scene \<open>k\<close> is the running total of the durations
  before it. For every scene list in which all durations are positive: when the
  current time is at or after the start of scene \<open>k\<close> and before the start of the next
  scene (the start of scene \<open>k\<close> plus its duration, as a double), \<open>getCurrentScene\<close>
  returns scene \<open>k\<close> with the time since its start and a progress in \<open>[0, 1]\<close>; when the
  current time is at or past the running total of all the durations, and so when it is
  at or past the total duration, it returns \<open>null\<close>.
\<close>

theorem getCurrentScene_spec:
  assumes pos: "\<forall>s \<in> set (pv_scenes pv). 0 < ps_duration s \<and> is_double (ps_duration s)"
    and time: "is_double (currentTime pv)"
  shows "(\<forall>k. k < length (pv_scenes pv)
             \<and> cumulative_start (pv_scenes pv) k \<le> currentTime pv
             \<and> currentTime pv
                 < fadd (cumulative_start (pv_scenes pv) k) (ps_duration (pv_scenes pv ! k))
          \<longrightarrow> getCurrentScene pv
                = Some \<lparr>scene = pv_scenes pv ! k,
                        localTime = fsub (currentTime pv) (cumulative_start (pv_scenes pv) k),
                        progress = fdiv (fsub (currentTime pv) (cumulative_start (pv_scenes pv) k))
                                     (ps_duration (pv_scenes pv ! k))\<rparr>
              \<and> 0 \<le> fdiv (fsub (currentTime pv) (cumulative_start (pv_scenes pv) k))
                       (ps_duration (pv_scenes pv ! k))
              \<and> fdiv (fsub (currentTime pv) (cumulative_start (pv_scenes pv) k))
                   (ps_duration (pv_scenes pv ! k)) \<le> 1)
       \<and> (cumulative_start (pv_scenes pv) (length (pv_scenes pv)) \<le> currentTime pv
            \<longrightarrow> getCurrentScene pv = None)
       \<and> (preview_getTotalDuration pv \<le> currentTime pv \<longrightarrow> getCurrentScene pv = None)"
proof (intro conjI allI impI)
  fix k
  assume a: "k < length (pv_scenes pv)
             \<and> cumulative_start (pv_scenes pv) k \<le> currentTime pv
             \<and> currentTime pv
                 < fadd (cumulative_start (pv_scenes pv) k) (ps_duration (pv_scenes pv ! k))"
  let ?ss = "pv_scenes pv" and ?t = "currentTime pv"
  let ?st = "cumulative_start ?ss k"
  from pos have pos': "\<forall>s \<in> set ?ss. 0 < ps_duration s" by simp
  from a have k: "k < length ?ss" and lo: "?st \<le> ?t"
    and hi: "?t < fadd ?st (ps_duration (?ss ! k))"
    by simp_all
  from k pos have d: "0 < ps_duration (?ss ! k)" "is_double (ps_duration (?ss ! k))" by simp_all
  from lo hi have "foldl fadd 0 (map ps_duration (take k ?ss)) \<le> ?t"
    and "?t < fadd (foldl fadd 0 (map ps_duration (take k ?ss))) (ps_duration (?ss ! k))"
    by (simp_all add: cumulative_start_def)
  from getCurrentScene_from_hit[OF pos' is_double_0 k this]
  show "getCurrentScene pv = Some \<lparr>scene = ?ss ! k, localTime = fsub ?t ?st,
             progress = fdiv (fsub ?t ?st) (ps_duration (?ss ! k))\<rparr>"
    by (simp add: getCurrentScene_def cumulative_start_def)
  from progress_range[OF time d(2) d(1) lo hi]
  show "0 \<le> fdiv (fsub ?t ?st) (ps_duration (?ss ! k))"
    and "fdiv (fsub ?t ?st) (ps_duration (?ss ! k)) \<le> 1"
    by simp_all
next
  assume "cumulative_start (pv_scenes pv) (length (pv_scenes pv)) \<le> currentTime pv"
  then have "foldl fadd 0 (map ps_duration (pv_scenes pv)) \<le> currentTime pv"
    by (simp add: cumulative_start_def)
  moreover from pos have "\<forall>s \<in> set (pv_scenes pv). 0 < ps_duration s" by simp
  ultimately show "getCurrentScene pv = None"
    using getCurrentScene_from_past[OF _ is_double_0] by (simp add: getCurrentScene_def)
next
  assume "preview_getTotalDuration pv \<le> currentTime pv"
  with preview_total_ge_sum[of pv]
  have "foldl fadd 0 (map ps_duration (pv_scenes pv)) \<le> currentTime pv"
    by (simp add: cumulative_start_def)
  moreover from pos have "\<forall>s \<in> set (pv_scenes pv). 0 < ps_duration s" by simp
  ultimately show "getCurrentScene pv = None"
    using getCurrentScene_from_past[OF _ is_double_0] by (simp add: getCurrentScene_def)
qed

text \<open>With scenes of 3, 4 and 3 seconds: at time 5 the second scene is current, half
  way through; at time 10 no scene is. With scenes of 2.4 and 4.6 seconds, at the
  greatest double below 7 the second scene is current and its progress is at most 1.\<close>

theorem getCurrentScene_spec_witness:
  "getCurrentScene example_preview
     = Some \<lparr>scene = \<lparr>ps_id = 2, ps_duration = 4, ps_visual_fx = None\<rparr>,
             localTime = 2, progress = 1/2\<rparr>
   \<and> getCurrentScene (example_preview\<lparr>currentTime := 10\<rparr>) = None
   \<and> fdiv (fsub (currentTime rounding_preview) (cumulative_start (pv_scenes rounding_preview) 1))
        (ps_duration (pv_scenes rounding_preview ! 1)) \<le> 1"
proof -
  have pos: "\<forall>s \<in> set (pv_scenes example_preview). 0 < ps_duration s \<and> is_double (ps_duration s)"
    by code_simp
  have time: "is_double (currentTime example_preview)" by code_simp
  have pos': "\<forall>s \<in> set (pv_scenes (example_preview\<lparr>currentTime := 10\<rparr>)).
                0 < ps_duration s \<and> is_double (ps_duration s)"
    by code_simp
  have time': "is_double (currentTime (example_preview\<lparr>currentTime := 10\<rparr>))" by code_simp
  have pos'': "\<forall>s \<in> set (pv_scenes rounding_preview). 0 < ps_duration s \<and> is_double (ps_duration s)"
    by code_simp
  have time'': "is_double (currentTime rounding_preview)" by code_simp
  have k: "1 < length (pv_scenes example_preview)
     \<and> cumulative_start (pv_scenes example_preview) 1 \<le> currentTime example_preview
     \<and> currentTime example_preview
         < fadd (cumulative_start (pv_scenes example_preview) 1)
             (ps_duration (pv_scenes example_preview ! 1))"
    by code_simp
  have v: "pv_scenes example_preview ! 1 = \<lparr>ps_id = 2, ps_duration = 4, ps_visual_fx = None\<rparr>"
    "fsub (currentTime example_preview) (cumulative_start (pv_scenes example_preview) 1) = 2"
    "fdiv 2 (ps_duration \<lparr>ps_id = 2, ps_duration = 4, ps_visual_fx = None\<rparr>) = 1/2"
    by code_simp+
  from getCurrentScene_spec[OF pos time] k
  have "getCurrentScene example_preview
      = Some \<lparr>scene = pv_scenes example_preview ! 1,
              localTime = fsub (currentTime example_preview)
                            (cumulative_start (pv_scenes example_preview) 1),
              progress = fdiv (fsub (currentTime example_preview)
                                 (cumulative_start (pv_scenes example_preview) 1))
                           (ps_duration (pv_scenes example_preview ! 1))\<rparr>"
    by blast
  then have a: "getCurrentScene example_preview
     = Some \<lparr>scene = \<lparr>ps_id = 2, ps_duration = 4, ps_visual_fx = None\<rparr>,
             localTime = 2, progress = 1/2\<rparr>"
    by (simp only: v)
  have "preview_getTotalDuration (example_preview\<lparr>currentTime := 10\<rparr>)
          \<le> currentTime (example_preview\<lparr>currentTime := 10\<rparr>)"
    by code_simp
  with getCurrentScene_spec[OF pos' time']
  have b: "getCurrentScene (example_preview\<lparr>currentTime := 10\<rparr>) = None" by blast
  have k'': "1 < length (pv_scenes rounding_preview)
     \<and> cumulative_start (pv_scenes rounding_preview) 1 \<le> currentTime rounding_preview
     \<and> currentTime rounding_preview
         < fadd (cumulative_start (pv_scenes rounding_preview) 1)
             (ps_duration (pv_scenes rounding_preview ! 1))"
    by code_simp
  with getCurrentScene_spec[OF pos'' time'']
  have c: "fdiv (fsub (currentTime rounding_preview)
                   (cumulative_start (pv_scenes rounding_preview) 1))
             (ps_duration (pv_scenes rounding_preview ! 1)) \<le> 1"
    by blast
  from a b c show ?thesis by simp
qed

text \<open>The claim as stated fails: the progress can be 1. With scenes of 2.4 and 4.6
  seconds (positive durations) and the current time 6.999999999999999, the time is at
  or after the start of the second scene and before its end, whether the end is summed
  exactly or as the engine sums it; \<open>getCurrentScene\<close> returns the second scene, and
  the progress it computes is exactly 1, which is not in \<open>[0, 1)\<close>.\<close>

theorem getCurrentScene_progress_one:
  "length (pv_scenes rounding_preview) = 2
   \<and> 0 < ps_duration (pv_scenes rounding_preview ! 0)
   \<and> 0 < ps_duration (pv_scenes rounding_preview ! 1)
   \<and> cumulative_start (pv_scenes rounding_preview) 1 \<le> currentTime rounding_preview
   \<and> currentTime rounding_preview
       < cumulative_start (pv_scenes rounding_preview) 1
         + ps_duration (pv_scenes rounding_preview ! 1)
   \<and> currentTime rounding_preview
       < fadd (cumulative_start (pv_scenes rounding_preview) 1)
           (ps_duration (pv_scenes rounding_preview ! 1))
   \<and> map_option scene (getCurrentScene rounding_preview) = Some (pv_scenes rounding_preview ! 1)
   \<and> map_option progress (getCurrentScene rounding_preview) = Some 1"
  by code_simp

lemma easeInOut_range:
  assumes "0 \<le> t" "t \<le> 1"
  shows "0 \<le> easeInOut t \<and> easeInOut t \<le> 1"
proof (cases "t < 1/2")
  case True
  have "0 \<le> t * t" by simp
  moreover from True assms have "t * t \<le> (1/2) * (1/2)" by (intro mult_mono) simp_all
  ultimately show ?thesis using True by (simp add: easeInOut_def)
next
  case False
  define q where "q = (1 - t) * (1 - t)"
  have "easeInOut t = - 1 + (4 - 2 * t) * t" using False by (simp add: easeInOut_def)
  also have "\<dots> = 1 - 2 * q" unfolding q_def by (simp add: algebra_simps)
  finally have e: "easeInOut t = 1 - 2 * q" .
  have q0: "0 \<le> q" unfolding q_def by simp
  from False assms have "(1 - t) * (1 - t) \<le> (1/2) * (1/2)"
    by (intro mult_mono) simp_all
  then have q1: "q \<le> 1/4" unfolding q_def by simp
  from q0 q1 show ?thesis unfolding e by simp
qed

lemma zoomIn_scale_range:
  assumes "0 \<le> p" "p \<le> 1"
  shows "1 \<le> zoomIn_scale p \<and> zoomIn_scale p \<le> 1.2"
  using easeInOut_range[OF assms] by (simp add: zoomIn_scale_def)

text \<open>
  Claim C9. The easing curve is \<open>ease(t) = 2t*t\<close> for \<open>t < 0.5\<close> and
  \<open>-1 + (4 - 2t)*t\<close> otherwise. The zoom_in effect scales both axes by the same factor
  \<open>1.0 + (1.2 - 1.0) * ease(progress)\<close> about the centre of the canvas: the factor is
  1.0 at progress 0, 1.2 at progress 1, and between the two for a progress in
  \<open>[0, 1]\<close>. At progress 0.5, \<open>ease(0.5) = 0.5\<close> and the factor is
  \<open>1.0 + 0.2 * ease(0.5) = 1.1\<close>; computed in double precision, it is the double
  that the literal \<open>1.1\<close> denotes.
\<close>

theorem zoom_in_spec:
  "(\<forall>t. easeInOut t = (if t < 1/2 then 2 * t * t else - 1 + (4 - 2 * t) * t))
   \<and> (\<forall>p pv. applyZoomIn p pv =
         [Translate (width pv / 2) (height pv / 2),
          Scale (1.0 + (1.2 - 1.0) * easeInOut p) (1.0 + (1.2 - 1.0) * easeInOut p),
          Translate (- (width pv / 2)) (- (height pv / 2))])
   \<and> zoomIn_scale 0 = 1.0 \<and> zoomIn_scale 1 = 1.2
   \<and> (\<forall>p. 0 \<le> p \<and> p \<le> 1 \<longrightarrow> 1.0 \<le> zoomIn_scale p \<and> zoomIn_scale p \<le> 1.2)
   \<and> easeInOut 0.5 = 0.5
   \<and> zoomIn_scale 0.5 = 1.0 + 0.2 * easeInOut 0.5
   \<and> zoomIn_scale 0.5 = 1.1
   \<and> zoomIn_scale_double 0.5 = round_double 1.1"
proof (intro conjI allI impI)
  fix p :: number assume "0 \<le> p \<and> p \<le> 1"
  then show "1.0 \<le> zoomIn_scale p" "zoomIn_scale p \<le> 1.2"
    using zoomIn_scale_range[of p] by simp_all
next
  show "zoomIn_scale_double 0.5 = round_double 1.1" by code_simp
qed (simp_all add: easeInOut_def zoomIn_scale_def applyZoomIn_def Let_def)

theorem zoom_in_spec_witness:
  "1.0 \<le> zoomIn_scale 0.25 \<and> zoomIn_scale 0.25 \<le> 1.2 \<and> zoomIn_scale 0.25 = 1.025"
proof -
  have h: "(0::number) \<le> 0.25 \<and> (0.25::number) \<le> 1" by simp
  from zoom_in_spec
  have "\<forall>p. 0 \<le> p \<and> p \<le> 1 \<longrightarrow> 1.0 \<le> zoomIn_scale p \<and> zoomIn_scale p \<le> 1.2"
    by blast
  with h have "1.0 \<le> zoomIn_scale 0.25 \<and> zoomIn_scale 0.25 \<le> 1.2" by blast
  moreover have "zoomIn_scale 0.25 = 1.025" by (simp add: zoomIn_scale_def easeInOut_def)
  ultimately show ?thesis by simp
qed





text \<open>The playhead does not rest at 0 under every callback: with a callback that
  starts the engine again, as the video editor's does when looping is switched on,
  the engine is playing after the tick.\<close>

lemma restarting_callback:
  "isPlaying (tick 9000 None 8 default_onTimeUpdate (\<lambda>pv. pv\<lparr>isPlaying := True\<rparr>)
                example_preview)"
  by code_simp


end
